theory Spec2Isabelle
  imports Complex_Main "HOL-Library.Char_ord" "HOL-Library.List_Lexorder"
begin

section \<open>Data model (FlyingHorseGame.tsx, lines 5-44)\<close>

text \<open>
  A JavaScript \<open>number\<close> is modelled as a real: IEEE rounding, infinities and NaN are
  not modelled. A score and an \<open>id\<close> are natural numbers. The fields \<open>x\<close>, \<open>y\<close> of a
  vector are named \<open>x_of\<close>, \<open>y_of\<close>, the field \<open>id\<close> is named \<open>ident\<close> and the
  cloud's \<open>size\<close> is \<open>csize\<close>; the three object types share field names, which are
  written qualified (\<open>Horseman.position\<close>, \<open>Orb.position\<close>, \<open>Cloud.position\<close>).
\<close>

record Vector =
  x_of :: real
  y_of :: real

record Horseman =
  ident :: nat
  name :: string
  color :: string
  trailColor :: string
  accent :: string
  position :: Vector
  velocity :: Vector
  targetTilt :: real
  tilt :: real
  score :: nat

record Orb =
  ident :: nat
  position :: Vector
  velocity :: Vector
  pulse :: real
  pulseDir :: real

record Cloud =
  ident :: nat
  position :: Vector
  csize :: real
  speed :: real
  opacity :: real

definition CANVAS_WIDTH :: real where
  "CANVAS_WIDTH = 960"

definition CANVAS_HEIGHT :: real where
  "CANVAS_HEIGHT = 560"

definition HORSEMAN_ACCEL :: real where
  "HORSEMAN_ACCEL = 0.24"

definition HORSEMAN_FRICTION :: real where
  "HORSEMAN_FRICTION = 0.985"

definition HORSEMAN_MAX_SPEED :: real where
  "HORSEMAN_MAX_SPEED = 7.4"

definition ORB_RESPAWN_TIME :: real where
  "ORB_RESPAWN_TIME = 12000"

lemmas game_consts = CANVAS_WIDTH_def CANVAS_HEIGHT_def HORSEMAN_ACCEL_def
  HORSEMAN_FRICTION_def HORSEMAN_MAX_SPEED_def ORB_RESPAWN_TIME_def

section \<open>Vector math (lines 46-58)\<close>

text \<open>\<open>clamp(value, min, max) = Math.min(Math.max(value, min), max)\<close>.\<close>

definition clamp :: "real \<Rightarrow> real \<Rightarrow> real \<Rightarrow> real" where
  "clamp val lo hi = min (max val lo) hi"

text \<open>\<open>distance\<close>: \<open>Math.hypot(dx, dy)\<close> is the square root of the sum of the squares.\<close>

definition distance :: "Vector \<Rightarrow> Vector \<Rightarrow> real" where
  "distance a b =
     (let dx = x_of a - x_of b;
          dy = y_of a - y_of b
      in sqrt (dx\<^sup>2 + dy\<^sup>2))"

text \<open>
  \<open>Math.random()\<close> is a source of numbers, \<open>rand\<close>, read at a counter that every call
  advances; \<open>randomRange\<close> returns its value with the advanced counter.
\<close>

type_synonym rng = "nat \<Rightarrow> real"

definition randomRange :: "rng \<Rightarrow> nat \<Rightarrow> real \<Rightarrow> real \<Rightarrow> real \<times> nat" where
  "randomRange rand n lo hi = (rand n * (hi - lo) + lo, Suc n)"

section \<open>Input tracker (lines 69, 257-259)\<close>

text \<open>
  \<open>pressedKeys\<close> is a \<open>Record<string, boolean>\<close>: a partial map. A key that was never
  pressed reads as \<open>undefined\<close>, which is falsy as \<open>false\<close> is.
\<close>

type_synonym keys = "string \<rightharpoonup> bool"

definition held :: "keys \<Rightarrow> string \<Rightarrow> bool" where
  "held ks k = (ks k = Some True)"

definition horizontal :: "keys \<Rightarrow> real" where
  "horizontal ks =
     (if held ks ''arrowright'' then 1 else 0) - (if held ks ''arrowleft'' then 1 else 0)"

definition vertical :: "keys \<Rightarrow> real" where
  "vertical ks =
     (if held ks ''arrowdown'' then 1 else 0) - (if held ks ''arrowup'' then 1 else 0)"

definition boost :: "keys \<Rightarrow> real" where
  "boost ks = (if held ks '' '' \<or> held ks ''shift'' then 1.4 else 1)"

section \<open>Agents: \<open>updateHorsemen\<close> (lines 253-307)\<close>

text \<open>
  \<open>activeHorseman\<close> is a number: a real, or \<open>None\<close> for NaN. \<open>active\<close> is
  \<open>currentHorsemen[activeHorseman]\<close>, an element of the array when the number is a
  natural number below its length, and \<open>undefined\<close> otherwise.
\<close>

datatype error = TypeError

definition active_index :: "real option \<Rightarrow> Horseman list \<Rightarrow> nat option" where
  "active_index a hs =
     (case a of
        None \<Rightarrow> None
      | Some r \<Rightarrow> if r \<in> \<nat> \<and> nat \<lfloor>r\<rfloor> < length hs then Some (nat \<lfloor>r\<rfloor>) else None)"

definition active_of :: "real option \<Rightarrow> Horseman list \<Rightarrow> Horseman option" where
  "active_of a hs = map_option (\<lambda>i. hs ! i) (active_index a hs)"

text \<open>Lines 261-270: the held keys steer the controlled agent.\<close>

definition steer :: "keys \<Rightarrow> Horseman \<Rightarrow> Horseman" where
  "steer ks active =
     (let acceleration = HORSEMAN_ACCEL * boost ks;
          v = Horseman.velocity active;
          active1 = active\<lparr>Horseman.velocity :=
            \<lparr>x_of = x_of v + horizontal ks * acceleration,
             y_of = y_of v + vertical ks * acceleration\<rparr>\<rparr>
      in if horizontal ks \<noteq> 0 \<or> vertical ks \<noteq> 0
         then active1\<lparr>targetTilt :=
                clamp (targetTilt active1 + horizontal ks * 0.06) (- 0.45) 0.45\<rparr>
         else active1\<lparr>targetTilt := targetTilt active1 * 0.88\<rparr>)"

text \<open>
  Lines 275-285: an agent that is not controlled is pulled towards \<open>active.position\<close>
  and wanders; \<open>now\<close> is the value of \<open>performance.now()\<close> read in its iteration.
\<close>

definition flock :: "Vector \<Rightarrow> real \<Rightarrow> nat \<Rightarrow> Horseman \<Rightarrow> Horseman" where
  "flock ap now index h =
     (let dx = x_of ap - x_of (Horseman.position h);
          dy = y_of ap - y_of (Horseman.position h);
          vx1 = x_of (Horseman.velocity h) + dx * 0.0006;
          vy1 = y_of (Horseman.velocity h) + dy * 0.0006;
          wander = sin (now / 800 + real index * 1.3)
      in h\<lparr>Horseman.velocity := \<lparr>x_of = vx1 + wander * 0.03, y_of = vy1\<rparr>,
            targetTilt := clamp (wander * 0.4) (- 0.45) 0.45\<rparr>)"

text \<open>
  Lines 287-305, for every agent: clamp the velocity, integrate, apply friction, reflect
  at the inset rectangle and ease the tilt.
\<close>

definition advance :: "real \<Rightarrow> Horseman \<Rightarrow> Horseman" where
  "advance delta h =
     (let vx = clamp (x_of (Horseman.velocity h)) (- HORSEMAN_MAX_SPEED) HORSEMAN_MAX_SPEED;
          vy = clamp (y_of (Horseman.velocity h)) (- HORSEMAN_MAX_SPEED) HORSEMAN_MAX_SPEED;
          px = x_of (Horseman.position h) + vx * (delta / 16);
          py = y_of (Horseman.position h) + vy * (delta / 16);
          vx1 = vx * HORSEMAN_FRICTION;
          vy1 = vy * HORSEMAN_FRICTION;
          hit_x = (px < 40 \<or> px > CANVAS_WIDTH - 40);
          vx2 = (if hit_x then vx1 * (- 0.7) else vx1);
          px2 = (if hit_x then clamp px 40 (CANVAS_WIDTH - 40) else px);
          hit_y = (py < 50 \<or> py > CANVAS_HEIGHT - 100);
          vy2 = (if hit_y then vy1 * (- 0.7) else vy1);
          py2 = (if hit_y then clamp py 50 (CANVAS_HEIGHT - 100) else py)
      in h\<lparr>Horseman.position := \<lparr>x_of = px2, y_of = py2\<rparr>,
            Horseman.velocity := \<lparr>x_of = vx2, y_of = vy2\<rparr>,
            tilt := tilt h + (targetTilt h - tilt h) * 0.18\<rparr>)"

text \<open>
  One iteration of the \<open>forEach\<close> of line 272, at \<open>index\<close>, on the array as the
  iterations before it left it: \<open>active\<close> is an element of the same array, so an agent
  after the controlled one is pulled towards the position the controlled one has already
  moved to. Reading \<open>active.position\<close> when \<open>active\<close> is \<open>undefined\<close> throws.
  (The guard \<open>if (!horseman) return\<close> never fires: every element is an object.)
\<close>

definition horseman_iteration ::
  "real \<Rightarrow> (nat \<Rightarrow> real) \<Rightarrow> real option \<Rightarrow> nat \<Rightarrow> Horseman list \<Rightarrow> error + Horseman list" where
  "horseman_iteration delta clock a index hs =
     (if Some (real index) \<noteq> a
      then (case active_of a hs of
              None \<Rightarrow> Inl TypeError
            | Some active \<Rightarrow>
                Inr (hs[index := advance delta
                       (flock (Horseman.position active) (clock index) index (hs ! index))]))
      else Inr (hs[index := advance delta (hs ! index)]))"

fun forEach_index ::
  "(nat \<Rightarrow> 'a list \<Rightarrow> error + 'a list) \<Rightarrow> nat list \<Rightarrow> 'a list \<Rightarrow> error + 'a list" where
  "forEach_index f [] xs = Inr xs"
| "forEach_index f (i # is) xs =
     (case f i xs of
        Inl e \<Rightarrow> Inl e
      | Inr xs' \<Rightarrow> forEach_index f is xs')"

definition updateHorsemen ::
  "real \<Rightarrow> (nat \<Rightarrow> real) \<Rightarrow> keys \<Rightarrow> real option \<Rightarrow> Horseman list \<Rightarrow> error + Horseman list" where
  "updateHorsemen delta clock ks a hs =
     (let hs1 = (case active_index a hs of
                   None \<Rightarrow> hs
                 | Some i \<Rightarrow> hs[i := steer ks (hs ! i)])
      in forEach_index (horseman_iteration delta clock a) [0..<length hs1] hs1)"

section \<open>Orbs: \<open>updateOrbs\<close> (lines 309-354)\<close>

text \<open>
  Lines 311-325: an orb moves by its velocity, its pulse oscillates, and a component of
  its velocity is negated when the moved position is outside the band; the position is
  left where it is.
\<close>

definition move_orb :: "real \<Rightarrow> Orb \<Rightarrow> Orb" where
  "move_orb delta orb =
     (let px = x_of (Orb.position orb) + x_of (Orb.velocity orb) * (delta / 16);
          py = y_of (Orb.position orb) + y_of (Orb.velocity orb) * (delta / 16);
          pulse1 = pulse orb + pulseDir orb * 0.01;
          pulseDir1 = (if pulse1 < 0.5 \<or> pulse1 > 1.2 then pulseDir orb * (- 1) else pulseDir orb);
          vx = (if px < 50 \<or> px > CANVAS_WIDTH - 50
                then x_of (Orb.velocity orb) * (- 1) else x_of (Orb.velocity orb));
          vy = (if py < 50 \<or> py > CANVAS_HEIGHT - 50
                then y_of (Orb.velocity orb) * (- 1) else y_of (Orb.velocity orb))
      in orb\<lparr>Orb.position := \<lparr>x_of = px, y_of = py\<rparr>,
              Orb.velocity := \<lparr>x_of = vx, y_of = vy\<rparr>,
              pulse := pulse1, pulseDir := pulseDir1\<rparr>)"

text \<open>Lines 329-335: the test and the pickup of one orb by one agent.\<close>

definition collect :: "Horseman \<Rightarrow> Orb \<Rightarrow> Horseman \<times> Orb" where
  "collect horseman orb =
     (if distance (Horseman.position horseman) (Orb.position orb) < 42
      then (horseman\<lparr>score := score horseman + 1\<rparr>,
            orb\<lparr>Orb.position := \<lparr>x_of = - 999, y_of = - 999\<rparr>,
                Orb.velocity := \<lparr>x_of = 0, y_of = 0\<rparr>\<rparr>)
      else (horseman, orb))"

text \<open>Line 328: the inner loop, one agent over every orb in order.\<close>

fun collect_orbs :: "Horseman \<Rightarrow> Orb list \<Rightarrow> Horseman \<times> Orb list" where
  "collect_orbs horseman [] = (horseman, [])"
| "collect_orbs horseman (orb # orbs) =
     (let (horseman1, orb1) = collect horseman orb;
          (horseman2, orbs2) = collect_orbs horseman1 orbs
      in (horseman2, orb1 # orbs2))"

text \<open>Line 327: the outer loop, every agent in order, on the orbs the agents before left.\<close>

fun collect_all :: "Horseman list \<Rightarrow> Orb list \<Rightarrow> Horseman list \<times> Orb list" where
  "collect_all [] orbs = ([], orbs)"
| "collect_all (horseman # horsemen) orbs =
     (let (horseman1, orbs1) = collect_orbs horseman orbs;
          (horsemen2, orbs2) = collect_all horsemen orbs1
      in (horseman1 # horsemen2, orbs2))"

text \<open>Lines 340-351: the respawn sweep; the test is on \<open>position.x\<close> alone.\<close>

definition respawn_orb :: "rng \<Rightarrow> nat \<Rightarrow> Orb \<Rightarrow> Orb \<times> nat" where
  "respawn_orb rand n orb =
     (if x_of (Orb.position orb) = - 999
      then (let (px, n1) = randomRange rand n 80 (CANVAS_WIDTH - 80);
                (py, n2) = randomRange rand n1 80 (CANVAS_HEIGHT - 160);
                (vx, n3) = randomRange rand n2 (- 0.5) 0.5;
                (vy, n4) = randomRange rand n3 (- 0.4) 0.4
            in (orb\<lparr>Orb.position := \<lparr>x_of = px, y_of = py\<rparr>,
                    Orb.velocity := \<lparr>x_of = vx, y_of = vy\<rparr>\<rparr>, n4))
      else (orb, n))"

fun respawn_orbs :: "rng \<Rightarrow> nat \<Rightarrow> Orb list \<Rightarrow> Orb list \<times> nat" where
  "respawn_orbs rand n [] = ([], n)"
| "respawn_orbs rand n (orb # orbs) =
     (let (orb1, n1) = respawn_orb rand n orb;
          (orbs1, n2) = respawn_orbs rand n1 orbs
      in (orb1 # orbs1, n2))"

section \<open>Clouds (lines 211-234)\<close>

definition move_cloud :: "rng \<Rightarrow> nat \<Rightarrow> real \<Rightarrow> Cloud \<Rightarrow> Cloud \<times> nat" where
  "move_cloud rand n delta cloud =
     (let px = x_of (Cloud.position cloud) + speed cloud * (delta / 16)
      in if px - csize cloud > CANVAS_WIDTH
         then (let (py, n1) = randomRange rand n 0 CANVAS_HEIGHT
               in (cloud\<lparr>Cloud.position := \<lparr>x_of = - csize cloud, y_of = py\<rparr>\<rparr>, n1))
         else (cloud\<lparr>Cloud.position :=
                 \<lparr>x_of = px, y_of = y_of (Cloud.position cloud)\<rparr>\<rparr>, n))"

section \<open>The frame driver and the renderer (lines 60-69, 171-209, 356-461)\<close>

text \<open>
  What a tick does, in program order: the updates of the world and the paintings on the
  drawing context. A painting carries the object as it is when it is painted; the
  painting of an agent and of its score panel also carry whether it is the controlled
  one. The single drawing calls of a painting are not modelled.
\<close>

datatype event =
    Cleared
  | Background_painted
  | Cloud_moved nat
  | Cloud_painted Cloud
  | Horsemen_updated
  | Orbs_updated
  | Horseman_painted Horseman bool
  | Orb_painted Orb
  | Hint_painted
  | Panel_painted nat string nat bool

fun is_update :: "event \<Rightarrow> bool" where
  "is_update (Cloud_moved _) = True"
| "is_update Horsemen_updated = True"
| "is_update Orbs_updated = True"
| "is_update _ = False"

fun is_paint :: "event \<Rightarrow> bool" where
  "is_paint (Cloud_moved _) = False"
| "is_paint Horsemen_updated = False"
| "is_paint Orbs_updated = False"
| "is_paint Cleared = False"
| "is_paint _ = True"

text \<open>
  The state of the component: the three refs of the world, the held keys, the React
  state \<open>activeHorseman\<close> and \<open>elapsed\<close>, the variables \<open>lastTime\<close> and \<open>orbTimer\<close> that
  are local to the effect of line 171, the handle that \<open>rafRef\<close> holds (\<open>None\<close> for
  \<open>undefined\<close>), the number of calls of \<open>Math.random()\<close> so far, and the events of the
  current tick. Of the browser the state has the handles of the animation frames that are
  requested and not yet run or cancelled (\<open>frames\<close>) and the handle that the next request
  returns (\<open>nextFrame\<close>).
\<close>

record Game =
  horsemenRef :: "Horseman list"
  orbsRef :: "Orb list"
  cloudsRef :: "Cloud list"
  pressedKeys :: keys
  activeHorseman :: "real option"
  elapsed :: real
  lastTime :: real
  orbTimer :: real
  rafRef :: "nat option"
  frames :: "nat set"
  nextFrame :: nat
  randoms :: nat
  trace :: "event list"

definition emit :: "event list \<Rightarrow> Game \<Rightarrow> Game" where
  "emit es g = g\<lparr>trace := trace g @ es\<rparr>"

text \<open>
  \<open>requestAnimationFrame\<close> adds a request and returns its handle;
  \<open>cancelAnimationFrame\<close> takes the request of a handle away.
\<close>

definition requestAnimationFrame :: "Game \<Rightarrow> nat \<times> Game" where
  "requestAnimationFrame g =
     (nextFrame g, g\<lparr>frames := insert (nextFrame g) (frames g), nextFrame := Suc (nextFrame g)\<rparr>)"

definition cancelAnimationFrame :: "nat \<Rightarrow> Game \<Rightarrow> Game" where
  "cancelAnimationFrame handle g = g\<lparr>frames := frames g - {handle}\<rparr>"

definition clearRect :: "Game \<Rightarrow> Game" where
  "clearRect g = emit [Cleared] g"

definition drawBackground :: "Game \<Rightarrow> Game" where
  "drawBackground g = emit [Background_painted] g"

text \<open>Lines 212-233: each cloud is moved and painted before the next one is moved.\<close>

fun forEach_cloud :: "rng \<Rightarrow> real \<Rightarrow> Cloud list \<Rightarrow> nat \<Rightarrow> Cloud list \<times> nat \<times> event list" where
  "forEach_cloud rand delta [] n = ([], n, [])"
| "forEach_cloud rand delta (cloud # clouds) n =
     (let (cloud1, n1) = move_cloud rand n delta cloud;
          (clouds1, n2, es) = forEach_cloud rand delta clouds n1
      in (cloud1 # clouds1, n2, Cloud_moved (Cloud.ident cloud1) # Cloud_painted cloud1 # es))"

definition updateClouds :: "rng \<Rightarrow> real \<Rightarrow> Game \<Rightarrow> Game" where
  "updateClouds rand delta g =
     (let (clouds, n, es) = forEach_cloud rand delta (cloudsRef g) (randoms g)
      in emit es (g\<lparr>cloudsRef := clouds, randoms := n\<rparr>))"

definition updateOrbs :: "rng \<Rightarrow> real \<Rightarrow> real \<Rightarrow> (Game \<Rightarrow> Game) \<Rightarrow> Game \<Rightarrow> Game" where
  "updateOrbs rand delta timer onRespawn g =
     (let orbs1 = map (move_orb delta) (orbsRef g);
          (horsemen, orbs2) = collect_all (horsemenRef g) orbs1;
          g1 = g\<lparr>horsemenRef := horsemen, orbsRef := orbs2\<rparr>;
          g2 = (if timer > ORB_RESPAWN_TIME
                then (let (orbs3, n) = respawn_orbs rand (randoms g1) orbs2
                      in onRespawn (g1\<lparr>orbsRef := orbs3, randoms := n\<rparr>))
                else g1)
      in emit [Orbs_updated] g2)"

definition drawHorsemen :: "Game \<Rightarrow> Game" where
  "drawHorsemen g =
     emit (map (\<lambda>(idx, horseman). Horseman_painted horseman (Some (real idx) = activeHorseman g))
             (enumerate 0 (horsemenRef g))) g"

text \<open>Line 421: an orb whose \<open>position.x\<close> is the sentinel is not painted.\<close>

definition drawOrbs :: "Game \<Rightarrow> Game" where
  "drawOrbs g =
     emit (map Orb_painted (filter (\<lambda>orb. x_of (Orb.position orb) \<noteq> - 999) (orbsRef g))) g"

definition drawUI :: "Game \<Rightarrow> Game" where
  "drawUI g =
     emit (Hint_painted #
           map (\<lambda>(idx, horseman).
                  Panel_painted idx (name horseman) (score horseman)
                    (Some (real idx) = activeHorseman g))
             (enumerate 0 (horsemenRef g))) g"

text \<open>
  Lines 181-199: the callback of an animation frame. The callback that runs is the one
  that was requested last, whose handle \<open>rafRef\<close> holds; the browser has taken its request
  off the list when it calls it. An exception thrown by \<open>updateHorsemen\<close> leaves the
  callback before the next frame is requested.
\<close>

definition step :: "rng \<Rightarrow> (nat \<Rightarrow> real) \<Rightarrow> real \<Rightarrow> Game \<Rightarrow> error + Game" where
  "step rand clock timestamp g =
     (let delta = timestamp - lastTime g;
          g1 = g\<lparr>elapsed := elapsed g + delta, lastTime := timestamp,
                 orbTimer := orbTimer g + delta,
                 frames := frames g - set_option (rafRef g), trace := []\<rparr>;
          g2 = clearRect g1;
          g3 = drawBackground g2;
          g4 = updateClouds rand delta g3
      in case updateHorsemen delta clock (pressedKeys g4) (activeHorseman g4) (horsemenRef g4) of
           Inl e \<Rightarrow> Inl e
         | Inr horsemen \<Rightarrow>
             (let g5 = emit [Horsemen_updated] (g4\<lparr>horsemenRef := horsemen\<rparr>);
                  g6 = updateOrbs rand delta (orbTimer g5) (\<lambda>s. s\<lparr>orbTimer := 0\<rparr>) g5;
                  g7 = drawHorsemen g6;
                  g8 = drawOrbs g7;
                  g9 = drawUI g8;
                  (handle, g10) = requestAnimationFrame g9
              in Inr (g10\<lparr>rafRef := Some handle\<rparr>)))"

text \<open>
  Lines 171-209: the effect that owns the loop has \<open>activeHorseman\<close> as its dependency.
  When \<open>setActiveHorseman\<close> changes the state, React runs the cleanup of the effect
  (lines 203-207) and then the effect again (lines 172-201), at a time \<open>now\<close>; when
  the state is set to the value it has, nothing runs. The canvas and its context are
  taken to exist. A handle is truthy when it is not 0.
\<close>

definition effect_cleanup :: "Game \<Rightarrow> Game" where
  "effect_cleanup g =
     (case rafRef g of
        None \<Rightarrow> g
      | Some handle \<Rightarrow> if handle \<noteq> 0 then cancelAnimationFrame handle g else g)"

definition effect_start :: "real \<Rightarrow> Game \<Rightarrow> Game" where
  "effect_start now g =
     (let g1 = g\<lparr>lastTime := now, orbTimer := 0\<rparr>;
          (handle, g2) = requestAnimationFrame g1
      in g2\<lparr>rafRef := Some handle\<rparr>)"

definition setActiveHorseman :: "real option \<Rightarrow> real \<Rightarrow> Game \<Rightarrow> Game" where
  "setActiveHorseman idx now g =
     (if idx = activeHorseman g then g
      else effect_start now (effect_cleanup (g\<lparr>activeHorseman := idx\<rparr>)))"

text \<open>
  Lines 145-160: the key handlers. \<open>Number\<close> is the parameter \<open>number\<close>, which gives
  a real or \<open>None\<close> for NaN. \<open>toLowerCase\<close> is modelled on ASCII letters, and the
  comparison of strings is the lexicographic one. \<open>preventDefault\<close> has no effect on
  the state of the component.
\<close>

definition lower_char :: "char \<Rightarrow> char" where
  "lower_char c =
     (if CHR ''A'' \<le> c \<and> c \<le> CHR ''Z'' then char_of (of_char c + (32::nat)) else c)"

definition toLowerCase :: "string \<Rightarrow> string" where
  "toLowerCase s = map lower_char s"

definition handleKeyDown :: "(string \<Rightarrow> real option) \<Rightarrow> string \<Rightarrow> real \<Rightarrow> Game \<Rightarrow> Game" where
  "handleKeyDown number key now g =
     (let g1 = g\<lparr>pressedKeys := (pressedKeys g)(toLowerCase key \<mapsto> True)\<rparr>
      in if ''1'' \<le> key \<and> key \<le> ''4''
         then (let idx = map_option (\<lambda>r. r - 1) (number key)
               in setActiveHorseman idx now g1)
         else g1)"

definition handleKeyUp :: "string \<Rightarrow> Game \<Rightarrow> Game" where
  "handleKeyUp key g = g\<lparr>pressedKeys := (pressedKeys g)(toLowerCase key \<mapsto> False)\<rparr>"

section \<open>The initial orbs (lines 118-130)\<close>

text \<open>
  An orb of the initial world, with the calls of \<open>Math.random()\<close> in the order of the
  object literal. (The initial agents and clouds are not needed below.)
\<close>

definition spawn_orb :: "rng \<Rightarrow> nat \<Rightarrow> nat \<Rightarrow> Orb \<times> nat" where
  "spawn_orb rand n idx =
     (let (px, n1) = randomRange rand n 80 (CANVAS_WIDTH - 80);
          (py, n2) = randomRange rand n1 80 (CANVAS_HEIGHT - 80);
          (vx, n3) = randomRange rand n2 (- 0.4) 0.4;
          (vy, n4) = randomRange rand n3 (- 0.3) 0.3;
          (p, n5) = randomRange rand n4 0.5 1;
          r = rand n5
      in (\<lparr>Orb.ident = idx, Orb.position = \<lparr>x_of = px, y_of = py\<rparr>,
           Orb.velocity = \<lparr>x_of = vx, y_of = vy\<rparr>, pulse = p,
           pulseDir = (if r > 0.5 then 1 else - 1)\<rparr>, Suc n5))"

section \<open>Notions of the specification\<close>

text \<open>
  An orb is marked collected by the pickup of lines 331-334: it is moved to the sentinel
  position and its velocity is zeroed.
\<close>

definition marked :: "Orb \<Rightarrow> Orb" where
  "marked orb = orb\<lparr>Orb.position := \<lparr>x_of = - 999, y_of = - 999\<rparr>,
                    Orb.velocity := \<lparr>x_of = 0, y_of = 0\<rparr>\<rparr>"

text \<open>The state of an orb that is marked collected.\<close>

definition is_collected :: "Orb \<Rightarrow> bool" where
  "is_collected orb =
     (Orb.position orb = \<lparr>x_of = - 999, y_of = - 999\<rparr> \<and>
      Orb.velocity orb = \<lparr>x_of = 0, y_of = 0\<rparr>)"

text \<open>The test of line 329: the agent is within the pickup radius of the orb.\<close>

definition in_reach :: "Horseman \<Rightarrow> Orb \<Rightarrow> bool" where
  "in_reach horseman orb = (distance (Horseman.position horseman) (Orb.position orb) < 42)"

fun first_in_reach :: "Horseman list \<Rightarrow> Orb \<Rightarrow> nat option" where
  "first_in_reach [] orb = None"
| "first_in_reach (horseman # horsemen) orb =
     (if in_reach horseman orb then Some 0
      else map_option Suc (first_in_reach horsemen orb))"

text \<open>
  The agent that collects an orb in a tick, as the specification has it: none for an orb
  that is already collected, else the first agent in order within the pickup radius.
\<close>

definition collector :: "Horseman list \<Rightarrow> Orb \<Rightarrow> nat option" where
  "collector horsemen orb =
     (if is_collected orb then None else first_in_reach horsemen orb)"

text \<open>
  What a respawn gives an orb: a position and a velocity in the ranges of lines 343-348.
\<close>

definition in_spawn_range :: "Orb \<Rightarrow> bool" where
  "in_spawn_range orb =
     (80 \<le> x_of (Orb.position orb) \<and> x_of (Orb.position orb) < CANVAS_WIDTH - 80 \<and>
      80 \<le> y_of (Orb.position orb) \<and> y_of (Orb.position orb) < CANVAS_HEIGHT - 160 \<and>
      - 0.5 \<le> x_of (Orb.velocity orb) \<and> x_of (Orb.velocity orb) < 0.5 \<and>
      - 0.4 \<le> y_of (Orb.velocity orb) \<and> y_of (Orb.velocity orb) < 0.4)"

text \<open>
  The orb that a respawn makes of a collected orb, as the specification has it: the position
  and the velocity are replaced by four successive random numbers, the draws \<open>k\<close> to
  \<open>k + 3\<close>, scaled to the ranges of lines 343-348; the rest of the orb is kept.
\<close>

definition respawned :: "rng \<Rightarrow> nat \<Rightarrow> Orb \<Rightarrow> Orb" where
  "respawned rand k orb =
     orb\<lparr>Orb.position := \<lparr>x_of = 80 + 800 * rand k, y_of = 80 + 320 * rand (k + 1)\<rparr>,
         Orb.velocity := \<lparr>x_of = rand (k + 2) - 0.5, y_of = 0.8 * rand (k + 3) - 0.4\<rparr>\<rparr>"

text \<open>
  The orbs as the pickup of a tick leaves them: an orb that has a collector is marked
  collected, the others are kept.
\<close>

definition picked :: "Horseman list \<Rightarrow> Orb list \<Rightarrow> Orb list" where
  "picked horsemen orbs =
     map (\<lambda>orb. if collector horsemen orb = None then orb else marked orb) orbs"

text \<open>
  The number of random numbers that the respawn sweep has drawn when it reaches the orb
  of index \<open>i\<close>: four for every orb before it that is at the sentinel.
\<close>

definition draws_before :: "Orb list \<Rightarrow> nat \<Rightarrow> nat" where
  "draws_before orbs i =
     4 * length (filter (\<lambda>orb. x_of (Orb.position orb) = - 999) (take i orbs))"

text \<open>
  The ordering of a tick as the specification states it: no update of the world comes
  after a painting.
\<close>

fun updates_before_paints :: "event list \<Rightarrow> bool" where
  "updates_before_paints [] = True"
| "updates_before_paints (e # es) =
     ((is_paint e \<longrightarrow> (\<forall>e'\<in>set es. \<not> is_update e')) \<and> updates_before_paints es)"

section \<open>Scenarios\<close>

text \<open>
  \<open>n\<close> successive ticks, each \<open>delta\<close> ms after the one before; \<open>clocks k\<close> is
  the clock of tick \<open>k\<close>. The run stops at the first tick that throws.
\<close>

fun run :: "rng \<Rightarrow> (nat \<Rightarrow> nat \<Rightarrow> real) \<Rightarrow> real \<Rightarrow> nat \<Rightarrow> Game \<Rightarrow> error + Game" where
  "run rand clocks delta 0 g = Inr g"
| "run rand clocks delta (Suc n) g =
     (case run rand clocks delta n g of
        Inl e \<Rightarrow> Inl e
      | Inr g' \<Rightarrow> step rand (clocks n) (lastTime g' + delta) g')"

text \<open>The agent at index \<open>a\<close> after \<open>n\<close> ticks of a run that has not thrown.\<close>

definition agent_after ::
  "rng \<Rightarrow> (nat \<Rightarrow> nat \<Rightarrow> real) \<Rightarrow> real \<Rightarrow> nat \<Rightarrow> Game \<Rightarrow> nat \<Rightarrow> Horseman" where
  "agent_after rand clocks delta n g a = horsemenRef (projr (run rand clocks delta n g)) ! a"

text \<open>
  What lines 263 and 287-299 do to \<open>(position.x, velocity.x)\<close> of the controlled agent in
  a tick of 16 ms with the right arrow held and neither the left arrow nor a boost key.
\<close>

definition right_tick :: "real \<times> real \<Rightarrow> real \<times> real" where
  "right_tick s =
     (let vx = clamp (snd s + HORSEMAN_ACCEL) (- HORSEMAN_MAX_SPEED) HORSEMAN_MAX_SPEED;
          px = fst s + vx
      in if px < 40 \<or> px > CANVAS_WIDTH - 40
         then (clamp px 40 (CANVAS_WIDTH - 40), vx * HORSEMAN_FRICTION * (- 0.7))
         else (px, vx * HORSEMAN_FRICTION))"

section \<open>Example states\<close>

text \<open>
  A small world for the examples: the agents and orbs that are given, one cloud, agent 0
  controlled and the frame with handle 1 requested. Its clock reads 1016 ms at every call
  and its random source always returns one half.
\<close>

definition demo_horseman :: "nat \<Rightarrow> string \<Rightarrow> Vector \<Rightarrow> Vector \<Rightarrow> Horseman" where
  "demo_horseman i n p v =
     \<lparr>Horseman.ident = i, name = n, color = ''#ff8c69'', trailColor = ''rgba(255,160,122,0.65)'',
      accent = ''#ffd8a8'', Horseman.position = p, Horseman.velocity = v,
      targetTilt = 0, tilt = 0, score = 0\<rparr>"

definition demo_orb :: "nat \<Rightarrow> Vector \<Rightarrow> Vector \<Rightarrow> Orb" where
  "demo_orb i p v = \<lparr>Orb.ident = i, Orb.position = p, Orb.velocity = v, pulse = 0.75, pulseDir = 1\<rparr>"

definition demo_cloud :: Cloud where
  "demo_cloud = \<lparr>Cloud.ident = 0, Cloud.position = \<lparr>x_of = 480, y_of = 280\<rparr>, csize = 180,
     speed = 0.4, opacity = 0.1\<rparr>"

definition demo_game :: "Horseman list \<Rightarrow> Orb list \<Rightarrow> keys \<Rightarrow> real \<Rightarrow> Game" where
  "demo_game horsemen orbs ks timer =
     \<lparr>horsemenRef = horsemen, orbsRef = orbs, cloudsRef = [demo_cloud],
      pressedKeys = ks, activeHorseman = Some 0,
      elapsed = 0, lastTime = 1000, orbTimer = timer, rafRef = Some 1, frames = {1},
      nextFrame = 2, randoms = 0, trace = []\<rparr>"

text \<open>
  Four agents, the first at a given place and the others where the initial world puts
  them, at rest; a world of these with one free and one collected orb; and the world of
  the scenario in which the right arrow alone is held.
\<close>

definition demo_riders :: "Vector \<Rightarrow> Horseman list" where
  "demo_riders p =
     [demo_horseman 0 ''Aurora'' p \<lparr>x_of = 0, y_of = 0\<rparr>,
      demo_horseman 1 ''Zephyr'' \<lparr>x_of = 420, y_of = 340\<rparr> \<lparr>x_of = 0, y_of = 0\<rparr>,
      demo_horseman 2 ''Nyx'' \<lparr>x_of = 540, y_of = 220\<rparr> \<lparr>x_of = 0, y_of = 0\<rparr>,
      demo_horseman 3 ''Pyrros'' \<lparr>x_of = 660, y_of = 340\<rparr> \<lparr>x_of = 0, y_of = 0\<rparr>]"

definition demo_world :: Game where
  "demo_world =
     demo_game (demo_riders \<lparr>x_of = 300, y_of = 220\<rparr>)
       [demo_orb 0 \<lparr>x_of = 480, y_of = 280\<rparr> \<lparr>x_of = 0, y_of = 0\<rparr>,
        demo_orb 1 \<lparr>x_of = - 999, y_of = - 999\<rparr> \<lparr>x_of = 0, y_of = 0\<rparr>]
       Map.empty 5000"

definition scenario_world :: Game where
  "scenario_world =
     demo_game (demo_riders \<lparr>x_of = 500, y_of = 280\<rparr>)
       [demo_orb 0 \<lparr>x_of = 480, y_of = 100\<rparr> \<lparr>x_of = 0, y_of = 0\<rparr>]
       [''arrowright'' \<mapsto> True] 0"

text \<open>
  A reading of keys for the examples: it agrees with \<open>Number\<close> on the four digit keys,
  the only keys at which the examples use it.
\<close>

definition demo_number :: "string \<Rightarrow> real option" where
  "demo_number s =
     (if s = ''1'' then Some 1 else if s = ''2'' then Some 2
      else if s = ''3'' then Some 3 else if s = ''4'' then Some 4 else None)"

definition demo_clock :: "nat \<Rightarrow> real" where
  "demo_clock index = 1016"

definition demo_rand :: rng where
  "demo_rand n = 1 / 2"

text \<open>A random source whose draws all differ: 1/2, 1/3, 1/4, ...\<close>

definition demo_draw :: rng where
  "demo_draw n = 1 / (real n + 2)"

section \<open>Properties of the vector math\<close>

text \<open>
  Claim C10. The clamp operation is idempotent: for every value and every pair of bounds,
  in whatever order the bounds are, clamping a clamped value returns it unchanged.
\<close>

theorem clamp_idempotent:
  "clamp (clamp val lo hi) lo hi = clamp val lo hi"
  by (simp add: clamp_def min_def max_def)

section \<open>The agent loop\<close>

lemma active_index_nat [simp]:
  "active_index (Some (real a)) hs = (if a < length hs then Some a else None)"
  by (simp add: active_index_def)

lemma advance_position_bounds:
  "40 \<le> x_of (Horseman.position (advance delta h)) \<and>
   x_of (Horseman.position (advance delta h)) \<le> 920 \<and>
   50 \<le> y_of (Horseman.position (advance delta h)) \<and>
   y_of (Horseman.position (advance delta h)) \<le> 460"
  by (simp add: advance_def Let_def clamp_def game_consts)

lemma clamp_abs: "0 \<le> m \<Longrightarrow> \<bar>clamp v (- m) m\<bar> \<le> m"
  by (auto simp: clamp_def min_def max_def)

lemma advance_velocity_bounds:
  "\<bar>x_of (Horseman.velocity (advance delta h))\<bar> \<le> 7.289 \<and>
   \<bar>y_of (Horseman.velocity (advance delta h))\<bar> \<le> 7.289"
proof -
  have a: "\<bar>clamp v (- 7.4) 7.4\<bar> \<le> 7.4" for v
    using clamp_abs [of "7.4" v] by simp
  have b: "\<bar>c\<bar> \<le> 7.4 \<Longrightarrow> \<bar>c * 0.985\<bar> \<le> 7.289 \<and> \<bar>c * 0.985 * (- 0.7)\<bar> \<le> 7.289" for c :: real
    by (simp add: abs_mult)
  show ?thesis
    using b [OF a [of "x_of (Horseman.velocity h)"]] b [OF a [of "y_of (Horseman.velocity h)"]]
    by (simp add: advance_def Let_def game_consts)
qed

lemma horseman_iteration_Inr:
  assumes "horseman_iteration delta clock a i hs = Inr hs'"
  shows "\<exists>h. hs' = hs[i := advance delta h]"
  using assms by (auto simp: horseman_iteration_def split: if_splits option.splits)

lemma horseman_iteration_self:
  "horseman_iteration delta clock (Some (real i)) i hs = Inr (hs[i := advance delta (hs ! i)])"
  by (simp add: horseman_iteration_def)

lemma horseman_iteration_defined:
  assumes "a < length hs"
  shows "\<exists>hs'. horseman_iteration delta clock (Some (real a)) i hs = Inr hs'"
  using assms by (simp add: horseman_iteration_def active_of_def)

lemma forEach_horsemen_length:
  "forEach_index (horseman_iteration delta clock a) is hs = Inr hs' \<Longrightarrow> length hs' = length hs"
proof (induction "is" arbitrary: hs)
  case Nil
  then show ?case by simp
next
  case (Cons i "is")
  then show ?case
    by (auto split: sum.splits dest!: horseman_iteration_Inr)
qed

lemma forEach_horsemen_untouched:
  "forEach_index (horseman_iteration delta clock a) is hs = Inr hs' \<Longrightarrow> j \<notin> set is \<Longrightarrow>
   hs' ! j = hs ! j"
proof (induction "is" arbitrary: hs)
  case Nil
  then show ?case by simp
next
  case (Cons i "is")
  then show ?case
    by (auto split: sum.splits dest!: horseman_iteration_Inr)
qed

lemma forEach_horsemen_advanced:
  "forEach_index (horseman_iteration delta clock a) is hs = Inr hs' \<Longrightarrow> distinct is \<Longrightarrow>
   j \<in> set is \<Longrightarrow> j < length hs \<Longrightarrow> \<exists>h. hs' ! j = advance delta h"
proof (induction "is" arbitrary: hs)
  case Nil
  then show ?case by simp
next
  case (Cons i "is")
  from Cons.prems(1) obtain hs1 where
    1: "horseman_iteration delta clock a i hs = Inr hs1" and
    2: "forEach_index (horseman_iteration delta clock a) is hs1 = Inr hs'"
    by (auto split: sum.splits)
  from 1 obtain h where h: "hs1 = hs[i := advance delta h]"
    by (auto dest: horseman_iteration_Inr)
  show ?case
  proof (cases "j = i")
    case True
    with Cons.prems(2) have "j \<notin> set is" by simp
    with 2 have "hs' ! j = hs1 ! j" by (rule forEach_horsemen_untouched)
    with h True Cons.prems(4) show ?thesis by auto
  next
    case False
    with Cons.prems have "j \<in> set is" "distinct is" "j < length hs1" using h by auto
    with Cons.IH [OF 2] show ?thesis by blast
  qed
qed

lemma forEach_horsemen_active:
  "forEach_index (horseman_iteration delta clock (Some (real a))) is hs = Inr hs' \<Longrightarrow> distinct is \<Longrightarrow>
   a \<in> set is \<Longrightarrow> a < length hs \<Longrightarrow> hs' ! a = advance delta (hs ! a)"
proof (induction "is" arbitrary: hs)
  case Nil
  then show ?case by simp
next
  case (Cons i "is")
  from Cons.prems(1) obtain hs1 where
    1: "horseman_iteration delta clock (Some (real a)) i hs = Inr hs1" and
    2: "forEach_index (horseman_iteration delta clock (Some (real a))) is hs1 = Inr hs'"
    by (auto split: sum.splits)
  show ?case
  proof (cases "a = i")
    case True
    with 1 have h: "hs1 = hs[a := advance delta (hs ! a)]"
      by (simp add: horseman_iteration_self)
    from True Cons.prems(2) have "a \<notin> set is" by simp
    with 2 have "hs' ! a = hs1 ! a" by (rule forEach_horsemen_untouched)
    with h Cons.prems(4) show ?thesis by simp
  next
    case False
    from 1 obtain h where h: "hs1 = hs[i := advance delta h]"
      by (auto dest: horseman_iteration_Inr)
    with False have same: "hs1 ! a = hs ! a" by simp
    from False Cons.prems h have "a \<in> set is" "distinct is" "a < length hs1" by auto
    with Cons.IH [OF 2] same show ?thesis by simp
  qed
qed

lemma forEach_horsemen_defined:
  "a < length hs \<Longrightarrow> \<exists>hs'. forEach_index (horseman_iteration delta clock (Some (real a))) is hs = Inr hs'"
proof (induction "is" arbitrary: hs)
  case Nil
  then show ?case by simp
next
  case (Cons i "is")
  from horseman_iteration_defined [OF Cons.prems] obtain hs1 where
    1: "horseman_iteration delta clock (Some (real a)) i hs = Inr hs1" by blast
  then have "length hs1 = length hs"
    by (auto dest: horseman_iteration_Inr)
  with Cons.prems have "a < length hs1" by simp
  from Cons.IH [OF this] 1 show ?case by simp
qed

lemma updateHorsemen_defined:
  "a < length hs \<Longrightarrow> \<exists>hs'. updateHorsemen delta clock ks (Some (real a)) hs = Inr hs'"
  by (simp add: updateHorsemen_def forEach_horsemen_defined)

lemma updateHorsemen_length:
  "updateHorsemen delta clock ks a hs = Inr hs' \<Longrightarrow> length hs' = length hs"
  by (auto simp: updateHorsemen_def Let_def dest!: forEach_horsemen_length split: option.splits if_splits)

lemma updateHorsemen_advanced:
  assumes "updateHorsemen delta clock ks a hs = Inr hs'" and "j < length hs"
  shows "\<exists>h. hs' ! j = advance delta h"
proof -
  define hs1 where "hs1 = (case active_index a hs of None \<Rightarrow> hs
     | Some i \<Rightarrow> hs[i := steer ks (hs ! i)])"
  have len: "length hs1 = length hs"
    by (simp add: hs1_def split: option.splits)
  from assms(1) have "forEach_index (horseman_iteration delta clock a) [0..<length hs1] hs1 = Inr hs'"
    by (simp add: updateHorsemen_def hs1_def Let_def)
  from forEach_horsemen_advanced [OF this] assms(2) len show ?thesis by simp
qed

lemma updateHorsemen_active:
  assumes "updateHorsemen delta clock ks (Some (real a)) hs = Inr hs'" and "a < length hs"
  shows "hs' ! a = advance delta (steer ks (hs ! a))"
proof -
  from assms have "forEach_index (horseman_iteration delta clock (Some (real a))) [0..<length hs]
      (hs[a := steer ks (hs ! a)]) = Inr hs'"
    by (simp add: updateHorsemen_def)
  from forEach_horsemen_active [OF this] assms(2) show ?thesis by simp
qed

section \<open>The parts of a tick\<close>

lemma emit_fields [simp]:
  "horsemenRef (emit es g) = horsemenRef g"
  "orbsRef (emit es g) = orbsRef g"
  "cloudsRef (emit es g) = cloudsRef g"
  "pressedKeys (emit es g) = pressedKeys g"
  "activeHorseman (emit es g) = activeHorseman g"
  "elapsed (emit es g) = elapsed g"
  "lastTime (emit es g) = lastTime g"
  "orbTimer (emit es g) = orbTimer g"
  "rafRef (emit es g) = rafRef g"
  "frames (emit es g) = frames g"
  "nextFrame (emit es g) = nextFrame g"
  "randoms (emit es g) = randoms g"
  "trace (emit es g) = trace g @ es"
  by (simp_all add: emit_def)

lemma updateClouds_fields [simp]:
  "horsemenRef (updateClouds rand delta g) = horsemenRef g"
  "orbsRef (updateClouds rand delta g) = orbsRef g"
  "pressedKeys (updateClouds rand delta g) = pressedKeys g"
  "activeHorseman (updateClouds rand delta g) = activeHorseman g"
  "elapsed (updateClouds rand delta g) = elapsed g"
  "lastTime (updateClouds rand delta g) = lastTime g"
  "orbTimer (updateClouds rand delta g) = orbTimer g"
  "rafRef (updateClouds rand delta g) = rafRef g"
  "frames (updateClouds rand delta g) = frames g"
  "nextFrame (updateClouds rand delta g) = nextFrame g"
  "cloudsRef (updateClouds rand delta g) = fst (forEach_cloud rand delta (cloudsRef g) (randoms g))"
  "randoms (updateClouds rand delta g) = fst (snd (forEach_cloud rand delta (cloudsRef g) (randoms g)))"
  "trace (updateClouds rand delta g) =
     trace g @ snd (snd (forEach_cloud rand delta (cloudsRef g) (randoms g)))"
  by (simp_all add: updateClouds_def split: prod.splits)

lemma step_world:
  assumes "step rand clock timestamp g = Inr g'"
  shows "\<exists>hs. updateHorsemen (timestamp - lastTime g) clock (pressedKeys g) (activeHorseman g)
             (horsemenRef g) = Inr hs \<and>
           horsemenRef g' = fst (collect_all hs (map (move_orb (timestamp - lastTime g)) (orbsRef g))) \<and>
           orbsRef g' =
             (let orbs2 = snd (collect_all hs (map (move_orb (timestamp - lastTime g)) (orbsRef g)))
              in if orbTimer g + (timestamp - lastTime g) > ORB_RESPAWN_TIME
                 then fst (respawn_orbs rand (fst (snd (forEach_cloud rand (timestamp - lastTime g) (cloudsRef g) (randoms g)))) orbs2)
                 else orbs2) \<and>
           orbTimer g' =
             (if orbTimer g + (timestamp - lastTime g) > ORB_RESPAWN_TIME then 0
              else orbTimer g + (timestamp - lastTime g)) \<and>
           lastTime g' = timestamp \<and>
           activeHorseman g' = activeHorseman g \<and>
           pressedKeys g' = pressedKeys g \<and>
           rafRef g' = Some (nextFrame g) \<and>
           frames g' = insert (nextFrame g) (frames g - set_option (rafRef g)) \<and>
           nextFrame g' = Suc (nextFrame g)"
  using assms
  by (auto simp: step_def Let_def updateOrbs_def drawHorsemen_def drawOrbs_def drawUI_def
      requestAnimationFrame_def
      clearRect_def drawBackground_def split: sum.splits prod.splits)

section \<open>The pickup loop\<close>

lemma collect_eq:
  "collect h orb = (if in_reach h orb then (h\<lparr>score := score h + 1\<rparr>, marked orb) else (h, orb))"
  by (simp add: collect_def in_reach_def marked_def)

lemma in_reach_score [simp]: "in_reach (h\<lparr>score := n\<rparr>) = in_reach h"
  by (rule ext) (simp add: in_reach_def)

lemma collector_Nil [simp]: "collector [] orb = None"
  by (simp add: collector_def)

lemma collect_orbs_eq:
  "collect_orbs h orbs =
     (h\<lparr>score := score h + length (filter (in_reach h) orbs)\<rparr>,
      map (\<lambda>orb. if in_reach h orb then marked orb else orb) orbs)"
  by (induction orbs arbitrary: h) (simp_all add: collect_eq)

lemma is_collected_marked [simp]: "is_collected (marked orb)"
  by (simp add: is_collected_def marked_def)

lemma marked_marked [simp]: "marked (marked orb) = marked orb"
  by (simp add: marked_def)

lemma marked_collected: "is_collected orb \<Longrightarrow> marked orb = orb"
  by (simp add: is_collected_def marked_def)

lemma sentinel_out_of_reach:
  assumes "40 \<le> x_of (Horseman.position h)" and "x_of (Orb.position orb) = - 999"
  shows "\<not> in_reach h orb"
proof -
  define dx where "dx = x_of (Horseman.position h) - x_of (Orb.position orb)"
  define dy where "dy = y_of (Horseman.position h) - y_of (Orb.position orb)"
  have "1039 \<le> dx" using assms by (simp add: dx_def)
  also have "dx \<le> sqrt (dx\<^sup>2 + dy\<^sup>2)" by (rule real_sqrt_sum_squares_ge1)
  finally show ?thesis by (simp add: in_reach_def distance_def dx_def dy_def)
qed

lemma collected_out_of_reach:
  "40 \<le> x_of (Horseman.position h) \<Longrightarrow> is_collected orb \<Longrightarrow> \<not> in_reach h orb"
  by (rule sentinel_out_of_reach) (simp_all add: is_collected_def)

lemma first_in_reach_collected:
  "\<forall>h\<in>set hs. 40 \<le> x_of (Horseman.position h) \<Longrightarrow> is_collected orb \<Longrightarrow>
   first_in_reach hs orb = None"
  by (induction hs) (auto dest: collected_out_of_reach)

lemma collect_all_eq:
  assumes "\<forall>h\<in>set hs. 40 \<le> x_of (Horseman.position h)"
  shows "collect_all hs orbs =
     (map (\<lambda>(i, h). h\<lparr>score := score h + length (filter (\<lambda>orb. collector hs orb = Some i) orbs)\<rparr>)
        (enumerate 0 hs),
      map (\<lambda>orb. if collector hs orb = None then orb else marked orb) orbs)"
  using assms
proof (induction hs arbitrary: orbs)
  case Nil
  then show ?case by simp
next
  case (Cons h hs)
  define f where "f = (\<lambda>orb. if in_reach h orb then marked orb else orb)"
  have far: "40 \<le> x_of (Horseman.position h)" using Cons.prems by simp
  have head: "collector (h # hs) orb = Some 0 \<longleftrightarrow> in_reach h orb" for orb
    using collected_out_of_reach [OF far, of orb] by (auto simp: collector_def)
  have tail: "collector hs (f orb) = Some k \<longleftrightarrow> collector (h # hs) orb = Some (Suc k)" for orb k
    by (auto simp: collector_def f_def)
  have orbs: "(if collector hs (f orb) = None then f orb else marked (f orb)) =
              (if collector (h # hs) orb = None then orb else marked orb)" for orb
    using collected_out_of_reach [OF far, of orb] 
    by (auto simp: collector_def f_def)
  have IH: "collect_all hs (map f orbs) =
     (map (\<lambda>(i, h). h\<lparr>score := score h + length (filter (\<lambda>orb. collector hs orb = Some i) (map f orbs))\<rparr>)
        (enumerate 0 hs),
      map (\<lambda>orb. if collector hs orb = None then orb else marked orb) (map f orbs))"
    using Cons.prems by (intro Cons.IH) simp
  have shift: "enumerate (Suc 0) hs = map (\<lambda>(i, h). (Suc i, h)) (enumerate 0 hs)"
    by (auto simp: enumerate_Suc_eq apfst_def map_prod_def)
  show ?case
    by (simp add: collect_orbs_eq f_def [symmetric] IH head filter_map o_def tail orbs shift
        split_def)
qed

section \<open>The tick\<close>

lemma sqrt_less_42: "sqrt v < 42 \<longleftrightarrow> v < 1764"
proof -
  have "sqrt 1764 = sqrt (42\<^sup>2)" by simp
  then have "sqrt 1764 = 42" by (simp del: power2_eq_square)
  then show ?thesis using real_sqrt_less_iff [of v 1764] by simp
qed

lemmas tick_eval = step_def Let_def clearRect_def drawBackground_def updateClouds_def
  requestAnimationFrame_def active_index_def
  emit_def move_cloud_def game_consts updateHorsemen_def horseman_iteration_def active_of_def
  steer_def horizontal_def vertical_def held_def boost_def advance_def flock_def clamp_def
  updateOrbs_def move_orb_def collect_def distance_def sqrt_less_42 power_divide
  drawHorsemen_def drawOrbs_def drawUI_def upt_conv_Cons randomRange_def respawn_orb_def

lemmas demo_defs = demo_game_def demo_horseman_def demo_orb_def demo_cloud_def demo_clock_def
  demo_rand_def demo_riders_def demo_world_def scenario_world_def

lemma collect_all_Cons:
  "collect_all (h # hs) orbs =
     (fst (collect_orbs h orbs) # fst (collect_all hs (snd (collect_orbs h orbs))),
      snd (collect_all hs (snd (collect_orbs h orbs))))"
  by (simp split: prod.splits)

lemma collect_all_length [simp]: "length (fst (collect_all hs orbs)) = length hs"
  by (induction hs arbitrary: orbs) (simp_all add: collect_all_Cons del: collect_all.simps(2))

lemma collect_all_orbs_length [simp]: "length (snd (collect_all hs orbs)) = length orbs"
  by (induction hs arbitrary: orbs)
    (simp_all add: collect_all_Cons collect_orbs_eq del: collect_all.simps(2))

lemma collect_all_nth:
  "i < length hs \<Longrightarrow> \<exists>n. fst (collect_all hs orbs) ! i = (hs ! i)\<lparr>score := n\<rparr>"
proof (induction hs arbitrary: orbs i)
  case Nil
  then show ?case by simp
next
  case (Cons h hs)
  show ?case
  proof (cases i)
    case 0
    then show ?thesis
      by (auto simp: collect_all_Cons collect_orbs_eq simp del: collect_all.simps(2))
  next
    case (Suc k)
    with Cons.prems have "k < length hs" by simp
    from Cons.IH [OF this] Suc show ?thesis
      by (simp add: collect_all_Cons del: collect_all.simps(2))
  qed
qed

lemma collect_all_keeps_collected:
  "i < length orbs \<Longrightarrow> is_collected (orbs ! i) \<Longrightarrow> snd (collect_all hs orbs) ! i = orbs ! i"
proof (induction hs arbitrary: orbs)
  case Nil
  then show ?case by simp
next
  case (Cons h hs)
  define orbs1 where "orbs1 = map (\<lambda>orb. if in_reach h orb then marked orb else orb) orbs"
  have 1: "i < length orbs1" using Cons.prems by (simp add: orbs1_def)
  have 2: "orbs1 ! i = orbs ! i"
    using Cons.prems by (simp add: orbs1_def marked_collected)
  from Cons.IH [OF 1] 2 Cons.prems show ?case
    by (simp add: collect_all_Cons collect_orbs_eq orbs1_def [symmetric] del: collect_all.simps(2))
qed

lemma step_defined:
  assumes "activeHorseman g = Some (real a)" and "a < length (horsemenRef g)"
  shows "\<exists>g'. step rand clock timestamp g = Inr g'"
proof -
  from updateHorsemen_defined [OF assms(2)] obtain hs where
    "updateHorsemen (timestamp - lastTime g) clock (pressedKeys g) (Some (real a)) (horsemenRef g) = Inr hs"
    by blast
  then show ?thesis
    using assms(1)
    by (simp add: step_def Let_def clearRect_def drawBackground_def requestAnimationFrame_def)
qed

lemma step_agents:
  assumes "step rand clock timestamp g = Inr g'" and "i < length (horsemenRef g)"
  shows "length (horsemenRef g') = length (horsemenRef g)"
    and "\<exists>h n. horsemenRef g' ! i = (advance (timestamp - lastTime g) h)\<lparr>score := n\<rparr>"
proof -
  from step_world [OF assms(1)] obtain hs where
    hs: "updateHorsemen (timestamp - lastTime g) clock (pressedKeys g) (activeHorseman g)
           (horsemenRef g) = Inr hs" and
    g': "horsemenRef g' = fst (collect_all hs (map (move_orb (timestamp - lastTime g)) (orbsRef g)))"
    by blast
  from hs have len: "length hs = length (horsemenRef g)" by (rule updateHorsemen_length)
  with g' show "length (horsemenRef g') = length (horsemenRef g)" by simp
  from updateHorsemen_advanced [OF hs assms(2)] obtain h where
    h: "hs ! i = advance (timestamp - lastTime g) h" by blast
  from len assms(2) have "i < length hs" by simp
  from collect_all_nth [OF this] g' h
  show "\<exists>h n. horsemenRef g' ! i = (advance (timestamp - lastTime g) h)\<lparr>score := n\<rparr>"
    by metis
qed

lemma step_agent_shape:
  assumes "step rand clock timestamp g = Inr g'" and "h' \<in> set (horsemenRef g')"
  shows "\<exists>h n. h' = (advance (timestamp - lastTime g) h)\<lparr>score := n\<rparr>"
proof -
  from assms(2) obtain i where i: "i < length (horsemenRef g')" "horsemenRef g' ! i = h'"
    by (auto simp: in_set_conv_nth)
  have "length (horsemenRef g') = length (horsemenRef g)"
  proof (cases "horsemenRef g")
    case Nil
    with step_world [OF assms(1)] show ?thesis
      by (auto simp: updateHorsemen_def split: option.splits)
  next
    case (Cons x xs)
    then have "0 < length (horsemenRef g)" by simp
    from step_agents(1) [OF assms(1) this] show ?thesis .
  qed
  with i have "i < length (horsemenRef g)" by simp
  from step_agents(2) [OF assms(1) this] i(2) show ?thesis by simp
qed

text \<open>
  Claim C1. After every tick every agent's position lies within the inset rectangle:
  \<open>position.x\<close> in [40, 920] (the canvas width 960 less a margin of 40) and
  \<open>position.y\<close> in [50, 460] (the canvas height 560 less 100). The tick returns
  whenever the controlled index points into the array of agents.
\<close>

theorem agents_stay_in_inset_rectangle:
  assumes "activeHorseman g = Some (real a)" and "a < length (horsemenRef g)"
  shows "\<exists>g'. step rand clock timestamp g = Inr g' \<and>
           (\<forall>h\<in>set (horsemenRef g').
              40 \<le> x_of (Horseman.position h) \<and>
              x_of (Horseman.position h) \<le> CANVAS_WIDTH - 40 \<and>
              50 \<le> y_of (Horseman.position h) \<and>
              y_of (Horseman.position h) \<le> CANVAS_HEIGHT - 100)"
proof -
  from step_defined [OF assms] obtain g' where g': "step rand clock timestamp g = Inr g'"
    by blast
  have "40 \<le> x_of (Horseman.position h) \<and> x_of (Horseman.position h) \<le> CANVAS_WIDTH - 40 \<and>
        50 \<le> y_of (Horseman.position h) \<and> y_of (Horseman.position h) \<le> CANVAS_HEIGHT - 100"
    if "h \<in> set (horsemenRef g')" for h
  proof -
    from step_agent_shape [OF g' that] obtain h0 n where
      "h = (advance (timestamp - lastTime g) h0)\<lparr>score := n\<rparr>" by blast
    with advance_position_bounds [of "timestamp - lastTime g" h0] show ?thesis
      by (simp add: game_consts)
  qed
  with g' show ?thesis by blast
qed

theorem agents_stay_in_inset_rectangle_witness:
  "\<exists>g'. step demo_rand demo_clock 1016
          (demo_game [demo_horseman 0 ''Aurora'' \<lparr>x_of = 919, y_of = 51\<rparr> \<lparr>x_of = 7, y_of = - 7\<rparr>]
             [] Map.empty 0) = Inr g' \<and>
        Horseman.position (horsemenRef g' ! 0) = \<lparr>x_of = 920, y_of = 50\<rparr>"
  using agents_stay_in_inset_rectangle [of
      "demo_game [demo_horseman 0 ''Aurora'' \<lparr>x_of = 919, y_of = 51\<rparr> \<lparr>x_of = 7, y_of = - 7\<rparr>]
         [] Map.empty 0" 0 demo_rand demo_clock 1016]
  by (simp add: tick_eval demo_defs)

text \<open>
  Claim C6. After every tick each component of every agent's velocity has magnitude at most
  the maximum speed 7.4: the clamp comes before the integration, and the friction and the
  reflection that follow only shrink it (to at most 7.4 * 0.985, see
  \<open>advance_velocity_bounds\<close>).
\<close>

theorem agent_speed_bounded:
  assumes "activeHorseman g = Some (real a)" and "a < length (horsemenRef g)"
  shows "\<exists>g'. step rand clock timestamp g = Inr g' \<and>
           (\<forall>h\<in>set (horsemenRef g').
              \<bar>x_of (Horseman.velocity h)\<bar> \<le> HORSEMAN_MAX_SPEED \<and>
              \<bar>y_of (Horseman.velocity h)\<bar> \<le> HORSEMAN_MAX_SPEED)"
proof -
  from step_defined [OF assms] obtain g' where g': "step rand clock timestamp g = Inr g'"
    by blast
  have "\<bar>x_of (Horseman.velocity h)\<bar> \<le> HORSEMAN_MAX_SPEED \<and>
        \<bar>y_of (Horseman.velocity h)\<bar> \<le> HORSEMAN_MAX_SPEED"
    if "h \<in> set (horsemenRef g')" for h
  proof -
    from step_agent_shape [OF g' that] obtain h0 n where
      "h = (advance (timestamp - lastTime g) h0)\<lparr>score := n\<rparr>" by blast
    with advance_velocity_bounds [of "timestamp - lastTime g" h0] show ?thesis
      by (simp add: game_consts)
  qed
  with g' show ?thesis by blast
qed

theorem agent_speed_bounded_witness:
  "\<exists>g'. step demo_rand demo_clock 1016
          (demo_game [demo_horseman 0 ''Aurora'' \<lparr>x_of = 919, y_of = 280\<rparr> \<lparr>x_of = 9, y_of = - 8\<rparr>]
             [] Map.empty 0) = Inr g' \<and>
        Horseman.velocity (horsemenRef g' ! 0) = \<lparr>x_of = - 5.1023, y_of = - 7.289\<rparr>"
  using agent_speed_bounded [of
      "demo_game [demo_horseman 0 ''Aurora'' \<lparr>x_of = 919, y_of = 280\<rparr> \<lparr>x_of = 9, y_of = - 8\<rparr>]
         [] Map.empty 0" 0 demo_rand demo_clock 1016]
  by (simp add: tick_eval demo_defs)

lemma advance_score [simp]: "score (advance delta h) = score h"
  by (simp add: advance_def Let_def)

lemma flock_score [simp]: "score (flock ap now index h) = score h"
  by (simp add: flock_def Let_def)

lemma steer_score [simp]: "score (steer ks h) = score h"
  by (simp add: steer_def Let_def)

lemma map_update_same: "(map f xs)[i := f (xs ! i)] = map f xs"
  by (cases "i < length xs") (simp_all add: list_eq_iff_nth_eq nth_list_update)

lemma horseman_iteration_scores:
  "horseman_iteration delta clock a i hs = Inr hs' \<Longrightarrow> map score hs' = map score hs"
  by (auto simp: horseman_iteration_def map_update map_update_same split: if_splits option.splits)

lemma forEach_horsemen_scores:
  "forEach_index (horseman_iteration delta clock a) is hs = Inr hs' \<Longrightarrow>
   map score hs' = map score hs"
proof (induction "is" arbitrary: hs)
  case Nil
  then show ?case by simp
next
  case (Cons i "is")
  then show ?case
    by (auto split: sum.splits dest!: horseman_iteration_scores)
qed

lemma updateHorsemen_scores:
  assumes "updateHorsemen delta clock ks a hs = Inr hs'"
  shows "map score hs' = map score hs"
proof -
  define hs1 where "hs1 = (case active_index a hs of None \<Rightarrow> hs
     | Some i \<Rightarrow> hs[i := steer ks (hs ! i)])"
  have "map score hs1 = map score hs"
    by (simp add: hs1_def map_update map_update_same split: option.splits)
  moreover from assms have
    "forEach_index (horseman_iteration delta clock a) [0..<length hs1] hs1 = Inr hs'"
    by (simp add: updateHorsemen_def hs1_def Let_def)
  ultimately show ?thesis by (simp add: forEach_horsemen_scores)
qed

lemma updateHorsemen_far:
  assumes "updateHorsemen delta clock ks a hs = Inr hs'"
  shows "\<forall>h\<in>set hs'. 40 \<le> x_of (Horseman.position h)"
proof
  fix h assume "h \<in> set hs'"
  then obtain i where i: "i < length hs'" "hs' ! i = h" by (auto simp: in_set_conv_nth)
  with updateHorsemen_length [OF assms] have "i < length hs" by simp
  from updateHorsemen_advanced [OF assms this] i(2) obtain h0 where "h = advance delta h0"
    by auto
  with advance_position_bounds [of delta h0]
  show "40 \<le> x_of (Horseman.position h)" by simp
qed

lemma first_in_reach_positions:
  "map Horseman.position hs1 = map Horseman.position hs2 \<Longrightarrow>
   first_in_reach hs1 orb = first_in_reach hs2 orb"
proof (induction hs1 arbitrary: hs2)
  case Nil
  then show ?case by simp
next
  case (Cons h hs1)
  from Cons.prems obtain h2 hs2' where hs2: "hs2 = h2 # hs2'" by (cases hs2) auto
  with Cons.prems have "Horseman.position h = Horseman.position h2"
    and "map Horseman.position hs1 = map Horseman.position hs2'" by simp_all
  with Cons.IH [of hs2'] hs2 show ?case by (simp add: in_reach_def)
qed

lemma collector_positions:
  "map Horseman.position hs1 = map Horseman.position hs2 \<Longrightarrow> collector hs1 orb = collector hs2 orb"
  using first_in_reach_positions [of hs1 hs2 orb] by (simp add: collector_def)

lemma collect_all_positions:
  "map Horseman.position (fst (collect_all hs orbs)) = map Horseman.position hs"
  by (induction hs arbitrary: orbs)
    (simp_all add: collect_all_Cons collect_orbs_eq del: collect_all.simps(2))

lemma move_orb_collected: "is_collected orb \<Longrightarrow> is_collected (move_orb delta orb)"
  by (simp add: is_collected_def move_orb_def Let_def game_consts)

lemma collect_all_score:
  assumes "\<forall>h\<in>set hs. 40 \<le> x_of (Horseman.position h)" and "i < length hs"
  shows "score (fst (collect_all hs orbs) ! i) =
         score (hs ! i) + length (filter (\<lambda>orb. collector hs orb = Some i) orbs)"
  using assms(2) by (simp add: collect_all_eq [OF assms(1)] nth_enumerate_eq)

lemma collect_all_velocities:
  "map Horseman.velocity (fst (collect_all hs orbs)) = map Horseman.velocity hs"
  by (induction hs arbitrary: orbs)
    (simp_all add: collect_all_Cons collect_orbs_eq del: collect_all.simps(2))

lemma step_active:
  assumes "step rand clock timestamp g = Inr g'"
    and "activeHorseman g = Some (real a)" and "a < length (horsemenRef g)"
  shows "Horseman.position (horsemenRef g' ! a) =
           Horseman.position (advance (timestamp - lastTime g) (steer (pressedKeys g) (horsemenRef g ! a)))"
    and "Horseman.velocity (horsemenRef g' ! a) =
           Horseman.velocity (advance (timestamp - lastTime g) (steer (pressedKeys g) (horsemenRef g ! a)))"
proof -
  from step_world [OF assms(1)] assms(2) obtain hs where
    hs: "updateHorsemen (timestamp - lastTime g) clock (pressedKeys g) (Some (real a)) (horsemenRef g) = Inr hs"
    and g': "horsemenRef g' = fst (collect_all hs (map (move_orb (timestamp - lastTime g)) (orbsRef g)))"
    by auto
  from updateHorsemen_length [OF hs] assms(3) have a: "a < length hs" by simp
  from collect_all_nth [OF a] g' obtain n where "horsemenRef g' ! a = (hs ! a)\<lparr>score := n\<rparr>"
    by metis
  with updateHorsemen_active [OF hs assms(3)]
  show "Horseman.position (horsemenRef g' ! a) =
           Horseman.position (advance (timestamp - lastTime g) (steer (pressedKeys g) (horsemenRef g ! a)))"
    and "Horseman.velocity (horsemenRef g' ! a) =
           Horseman.velocity (advance (timestamp - lastTime g) (steer (pressedKeys g) (horsemenRef g ! a)))"
    by simp_all
qed

text \<open>
  Claim C2. In every tick at most one agent collects an orb, and an orb that is already
  marked collected gives no agent a point: the score of agent \<open>i\<close> grows by the number of
  orbs whose collector it is, where the collector of an orb is a single agent at most,
  the first one in reach of it, and none for a collected orb. (The orbs are tested where
  the motion of this tick has put them, against the agents as this tick has moved them.)
\<close>

theorem one_collector_per_orb:
  assumes "activeHorseman g = Some (real a)" and "a < length (horsemenRef g)"
  shows "\<exists>g'. step rand clock timestamp g = Inr g' \<and>
           (\<forall>i<length (horsemenRef g).
              score (horsemenRef g' ! i) =
              score (horsemenRef g ! i) +
              length (filter (\<lambda>orb. collector (horsemenRef g') orb = Some i)
                        (map (move_orb (timestamp - lastTime g)) (orbsRef g)))) \<and>
           (\<forall>orb\<in>set (orbsRef g). is_collected orb \<longrightarrow>
              collector (horsemenRef g') (move_orb (timestamp - lastTime g) orb) = None)"
proof -
  define delta where "delta = timestamp - lastTime g"
  from step_defined [OF assms] obtain g' where g': "step rand clock timestamp g = Inr g'"
    by blast
  from step_world [OF g'] obtain hs where
    hs: "updateHorsemen delta clock (pressedKeys g) (activeHorseman g) (horsemenRef g) = Inr hs" and
    after: "horsemenRef g' = fst (collect_all hs (map (move_orb delta) (orbsRef g)))"
    unfolding delta_def by blast
  have far: "\<forall>h\<in>set hs. 40 \<le> x_of (Horseman.position h)"
    using hs by (rule updateHorsemen_far)
  have len: "length hs = length (horsemenRef g)"
    using hs by (rule updateHorsemen_length)
  have same: "collector (horsemenRef g') orb = collector hs orb" for orb
    by (rule collector_positions) (simp add: after collect_all_positions)
  have scores: "score (horsemenRef g' ! i) =
        score (horsemenRef g ! i) +
        length (filter (\<lambda>orb. collector (horsemenRef g') orb = Some i)
                  (map (move_orb delta) (orbsRef g)))"
    if i: "i < length (horsemenRef g)" for i
  proof -
    from i len have "i < length hs" by simp
    from collect_all_score [OF far this, of "map (move_orb delta) (orbsRef g)"]
    have "score (horsemenRef g' ! i) =
          score (hs ! i) + length (filter (\<lambda>orb. collector hs orb = Some i)
                                     (map (move_orb delta) (orbsRef g)))"
      by (simp add: after)
    moreover have "score (hs ! i) = score (horsemenRef g ! i)"
    proof -
      have "map score hs ! i = map score (horsemenRef g) ! i"
        by (simp only: updateHorsemen_scores [OF hs])
      with i len show ?thesis by simp
    qed
    ultimately show ?thesis by (simp add: same)
  qed
  have none: "collector (horsemenRef g') (move_orb delta orb) = None" if "is_collected orb" for orb
    using move_orb_collected [OF that] by (simp add: collector_def)
  show ?thesis
  proof (intro exI [of _ g'] conjI allI ballI impI)
    show "step rand clock timestamp g = Inr g'" by (rule g')
  next
    fix i assume "i < length (horsemenRef g)"
    then show "score (horsemenRef g' ! i) =
        score (horsemenRef g ! i) +
        length (filter (\<lambda>orb. collector (horsemenRef g') orb = Some i)
                  (map (move_orb (timestamp - lastTime g)) (orbsRef g)))"
      using scores by (simp add: delta_def)
  next
    fix orb assume "is_collected orb"
    then show "collector (horsemenRef g') (move_orb (timestamp - lastTime g) orb) = None"
      using none by (simp add: delta_def)
  qed
qed

theorem one_collector_per_orb_witness:
  "\<exists>g'. step demo_rand demo_clock 1016
          (demo_game [demo_horseman 0 ''Aurora'' \<lparr>x_of = 500, y_of = 280\<rparr> \<lparr>x_of = 0, y_of = 0\<rparr>,
                      demo_horseman 1 ''Zephyr'' \<lparr>x_of = 500, y_of = 280\<rparr> \<lparr>x_of = 0, y_of = 0\<rparr>]
             [demo_orb 0 \<lparr>x_of = 500, y_of = 300\<rparr> \<lparr>x_of = 0, y_of = 0\<rparr>,
              demo_orb 1 \<lparr>x_of = - 999, y_of = - 999\<rparr> \<lparr>x_of = 0, y_of = 0\<rparr>] Map.empty 0) = Inr g' \<and>
        score (horsemenRef g' ! 0) = 1 \<and> score (horsemenRef g' ! 1) = 0"
proof -
  define h where "h = demo_horseman 0 ''Aurora'' \<lparr>x_of = 500, y_of = 280\<rparr> \<lparr>x_of = 0, y_of = 0\<rparr>"
  define h' where "h' = demo_horseman 1 ''Zephyr'' \<lparr>x_of = 500, y_of = 280\<rparr> \<lparr>x_of = 0, y_of = 0\<rparr>"
  define orb where "orb = demo_orb 0 \<lparr>x_of = 500, y_of = 300\<rparr> \<lparr>x_of = 0, y_of = 0\<rparr>"
  define orb' where "orb' = demo_orb 1 \<lparr>x_of = - 999, y_of = - 999\<rparr> \<lparr>x_of = 0, y_of = 0\<rparr>"
  define g where "g = demo_game [h, h'] [orb, orb'] Map.empty 0"
  have fields: "activeHorseman g = Some (real 0)" "horsemenRef g = [h, h']" "orbsRef g = [orb, orb']"
    "pressedKeys g = Map.empty" "lastTime g = 1000"
    by (simp_all add: g_def demo_game_def)
  from one_collector_per_orb [of g 0 demo_rand demo_clock 1016] obtain g' where
    g': "step demo_rand demo_clock 1016 g = Inr g'" and
    scores: "\<forall>i<2. score (horsemenRef g' ! i) =
               score ([h, h'] ! i) +
               length (filter (\<lambda>orb. collector (horsemenRef g') orb = Some i)
                         [move_orb 16 orb, move_orb 16 orb'])" and
    none: "is_collected orb' \<longrightarrow> collector (horsemenRef g') (move_orb 16 orb') = None"
    by (auto simp: fields)
  from step_agents(1) [OF g', of 0] have "length (horsemenRef g') = 2" by (simp add: fields)
  then obtain r r' where rs: "horsemenRef g' = [r, r']"
    by (cases "horsemenRef g'"; cases "tl (horsemenRef g')") auto
  from step_active(1) [OF g' fields(1)] have "Horseman.position r = \<lparr>x_of = 500, y_of = 280\<rparr>"
    by (simp add: fields rs h_def demo_horseman_def advance_def steer_def horizontal_def
        vertical_def boost_def held_def clamp_def game_consts Let_def)
  then have "in_reach r (move_orb 16 orb)"
    by (simp add: in_reach_def distance_def move_orb_def orb_def demo_orb_def Let_def
        game_consts sqrt_less_42)
  moreover have "\<not> is_collected (move_orb 16 orb)"
    by (simp add: is_collected_def move_orb_def orb_def demo_orb_def Let_def)
  ultimately have first: "collector [r, r'] (move_orb 16 orb) = Some 0"
    by (simp add: collector_def)
  have "is_collected orb'" by (simp add: is_collected_def orb'_def demo_orb_def)
  with none have second: "collector [r, r'] (move_orb 16 orb') = None" by (simp add: rs)
  from scores [rule_format, of 0] have "score (horsemenRef g' ! 0) = 1"
    by (simp add: rs first second h_def demo_horseman_def)
  moreover from scores [rule_format, of 1] have "score (horsemenRef g' ! 1) = 0"
    by (simp add: rs first second h'_def demo_horseman_def)
  ultimately show ?thesis using g'
    unfolding g_def h_def h'_def orb_def orb'_def by blast
qed

section \<open>The respawn sweep\<close>

lemma respawn_orb_sentinel:
  assumes "\<forall>n. 0 \<le> rand n \<and> rand n < 1" and "x_of (Orb.position orb) = - 999"
  shows "in_spawn_range (fst (respawn_orb rand k orb))"
proof -
  have r: "0 \<le> rand n" "rand n < 1" for n using assms(1) by simp_all
  show ?thesis
    using r [of k] r [of "Suc k"] r [of "Suc (Suc k)"] r [of "Suc (Suc (Suc k))"] assms(2)
    by (simp add: respawn_orb_def randomRange_def in_spawn_range_def game_consts)
qed

lemma respawn_orb_other:
  "x_of (Orb.position orb) \<noteq> - 999 \<Longrightarrow> fst (respawn_orb rand k orb) = orb"
  by (simp add: respawn_orb_def)

lemma respawn_orbs_Cons:
  "respawn_orbs rand n (orb # orbs) =
     (fst (respawn_orb rand n orb) # fst (respawn_orbs rand (snd (respawn_orb rand n orb)) orbs),
      snd (respawn_orbs rand (snd (respawn_orb rand n orb)) orbs))"
  by (simp split: prod.splits)

lemma respawn_orbs_length [simp]: "length (fst (respawn_orbs rand n orbs)) = length orbs"
  by (induction orbs arbitrary: n) (simp_all add: respawn_orbs_Cons del: respawn_orbs.simps(2))

lemma respawn_orbs_nth:
  "i < length orbs \<Longrightarrow> \<exists>k. fst (respawn_orbs rand n orbs) ! i = fst (respawn_orb rand k (orbs ! i))"
proof (induction orbs arbitrary: n i)
  case Nil
  then show ?case by simp
next
  case (Cons orb orbs)
  show ?case
  proof (cases i)
    case 0
    then show ?thesis by (auto simp: respawn_orbs_Cons simp del: respawn_orbs.simps(2))
  next
    case (Suc j)
    with Cons.prems have "j < length orbs" by simp
    from Cons.IH [OF this] Suc show ?thesis
      by (simp add: respawn_orbs_Cons del: respawn_orbs.simps(2))
  qed
qed

lemma respawn_orb_eq:
  "respawn_orb rand n orb =
     (if x_of (Orb.position orb) = - 999 then (respawned rand n orb, n + 4) else (orb, n))"
  by (simp add: respawn_orb_def randomRange_def respawned_def game_consts eval_nat_numeral
      mult.commute add.commute)

lemma draws_before_0 [simp]: "draws_before orbs 0 = 0"
  by (simp add: draws_before_def)

lemma draws_before_Suc:
  "draws_before (orb # orbs) (Suc i) =
     (if x_of (Orb.position orb) = - 999 then 4 else 0) + draws_before orbs i"
  by (simp add: draws_before_def)

lemma respawn_orbs_exact:
  "i < length orbs \<Longrightarrow>
   fst (respawn_orbs rand n orbs) ! i =
     (if x_of (Orb.position (orbs ! i)) = - 999
      then respawned rand (n + draws_before orbs i) (orbs ! i) else orbs ! i)"
proof (induction orbs arbitrary: n i)
  case Nil
  then show ?case by simp
next
  case (Cons orb orbs)
  show ?case
  proof (cases i)
    case 0
    then show ?thesis
      by (simp add: respawn_orbs_Cons respawn_orb_eq del: respawn_orbs.simps(2))
  next
    case (Suc j)
    with Cons.prems have "j < length orbs" by simp
    from Cons.IH [OF this, of "snd (respawn_orb rand n orb)"] Suc show ?thesis
      by (simp add: respawn_orbs_Cons respawn_orb_eq draws_before_Suc add.assoc
          del: respawn_orbs.simps(2))
  qed
qed

lemma respawned_marked: "respawned rand k (marked orb) = respawned rand k orb"
  by (simp add: respawned_def marked_def)

lemma in_spawn_range_not_sentinel: "in_spawn_range orb \<Longrightarrow> x_of (Orb.position orb) \<noteq> - 999"
  by (simp add: in_spawn_range_def)

lemma respawn_orbs_result:
  assumes "\<forall>n. 0 \<le> rand n \<and> rand n < 1" and "i < length orbs"
  shows "(x_of (Orb.position (orbs ! i)) = - 999 \<longrightarrow>
            in_spawn_range (fst (respawn_orbs rand n orbs) ! i)) \<and>
         (x_of (Orb.position (orbs ! i)) \<noteq> - 999 \<longrightarrow>
            fst (respawn_orbs rand n orbs) ! i = orbs ! i)"
proof -
  from respawn_orbs_nth [OF assms(2)] obtain k where
    "fst (respawn_orbs rand n orbs) ! i = fst (respawn_orb rand k (orbs ! i))" by blast
  then show ?thesis
    using respawn_orb_sentinel [OF assms(1), of "orbs ! i" k] respawn_orb_other [of "orbs ! i" rand k]
    by auto
qed

lemma is_collected_sentinel: "is_collected orb \<Longrightarrow> x_of (Orb.position orb) = - 999"
  by (simp add: is_collected_def)

lemma collect_all_orbs_nth:
  assumes "\<forall>h\<in>set hs. 40 \<le> x_of (Horseman.position h)" and "i < length orbs"
  shows "snd (collect_all hs orbs) ! i =
         (if collector hs (orbs ! i) = None then orbs ! i else marked (orbs ! i))"
  using assms(2) by (simp add: collect_all_eq [OF assms(1)])

text \<open>
  Claim C3. The respawn is batched: in the tick in which the accumulated timer exceeds
  12000 ms the timer is reset to 0, every orb that was collected before the tick and every
  orb that is collected in the tick gets a new random position and velocity inside the
  playfield, and no orb is left collected. So two orbs that were collected at different
  times before the threshold is crossed respawn in the same tick. The new position and
  velocity of such an orb are the next four random numbers, drawn after those of the
  clouds and of the collected orbs before it and scaled to the ranges of the playfield;
  an orb that is not collected is only moved.
\<close>

theorem respawn_is_batched:
  assumes "activeHorseman g = Some (real a)" and "a < length (horsemenRef g)"
    and "\<forall>n. 0 \<le> rand n \<and> rand n < 1"
    and "ORB_RESPAWN_TIME < orbTimer g + (timestamp - lastTime g)"
  shows "\<exists>g'. step rand clock timestamp g = Inr g' \<and>
           orbTimer g' = 0 \<and>
           length (orbsRef g') = length (orbsRef g) \<and>
           (\<forall>i<length (orbsRef g).
              is_collected (orbsRef g ! i) \<longrightarrow> in_spawn_range (orbsRef g' ! i)) \<and>
           (\<forall>i<length (orbsRef g).
              collector (horsemenRef g') (move_orb (timestamp - lastTime g) (orbsRef g ! i)) \<noteq> None \<longrightarrow>
              in_spawn_range (orbsRef g' ! i)) \<and>
           (\<forall>orb\<in>set (orbsRef g'). x_of (Orb.position orb) \<noteq> - 999) \<and>
           (\<forall>i<length (orbsRef g).
              is_collected (orbsRef g ! i) \<or>
              collector (horsemenRef g') (move_orb (timestamp - lastTime g) (orbsRef g ! i)) \<noteq> None \<longrightarrow>
              orbsRef g' ! i =
                respawned rand
                  (randoms (updateClouds rand (timestamp - lastTime g) g) +
                   draws_before
                     (picked (horsemenRef g') (map (move_orb (timestamp - lastTime g)) (orbsRef g))) i)
                  (move_orb (timestamp - lastTime g) (orbsRef g ! i))) \<and>
           (\<forall>i<length (orbsRef g).
              x_of (Orb.position
                (picked (horsemenRef g') (map (move_orb (timestamp - lastTime g)) (orbsRef g)) ! i)) \<noteq> - 999 \<longrightarrow>
              orbsRef g' ! i = move_orb (timestamp - lastTime g) (orbsRef g ! i))"
proof -
  define delta where "delta = timestamp - lastTime g"
  define moved where "moved = map (move_orb delta) (orbsRef g)"
  define n where "n = fst (snd (forEach_cloud rand delta (cloudsRef g) (randoms g)))"
  from step_defined [OF assms(1,2)] obtain g' where g': "step rand clock timestamp g = Inr g'"
    by blast
  from step_world [OF g'] assms(4) obtain hs where
    hs: "updateHorsemen delta clock (pressedKeys g) (activeHorseman g) (horsemenRef g) = Inr hs" and
    agents: "horsemenRef g' = fst (collect_all hs moved)" and
    orbs: "orbsRef g' = fst (respawn_orbs rand n (snd (collect_all hs moved)))" and
    timer: "orbTimer g' = 0"
    unfolding delta_def moved_def n_def by (auto simp: Let_def)
  have far: "\<forall>h\<in>set hs. 40 \<le> x_of (Horseman.position h)"
    using hs by (rule updateHorsemen_far)
  have same: "collector (horsemenRef g') orb = collector hs orb" for orb
    by (rule collector_positions) (simp add: agents collect_all_positions)
  have len: "length (orbsRef g') = length (orbsRef g)"
    by (simp add: orbs moved_def)
  have picked: "snd (collect_all hs moved) ! i =
      (if collector hs (moved ! i) = None then moved ! i else marked (moved ! i))"
    if "i < length (orbsRef g)" for i
    using that by (intro collect_all_orbs_nth [OF far]) (simp add: moved_def)
  have sweep: "(x_of (Orb.position (snd (collect_all hs moved) ! i)) = - 999 \<longrightarrow>
                  in_spawn_range (orbsRef g' ! i)) \<and>
               (x_of (Orb.position (snd (collect_all hs moved) ! i)) \<noteq> - 999 \<longrightarrow>
                  orbsRef g' ! i = snd (collect_all hs moved) ! i)"
    if "i < length (orbsRef g)" for i
    using that respawn_orbs_result [OF assms(3), of i "snd (collect_all hs moved)" n]
    by (simp add: orbs moved_def)
  have a: "in_spawn_range (orbsRef g' ! i)"
    if i: "i < length (orbsRef g)" and c: "is_collected (orbsRef g ! i)" for i
  proof -
    from i c have "is_collected (moved ! i)" by (simp add: moved_def move_orb_collected)
    then have "x_of (Orb.position (snd (collect_all hs moved) ! i)) = - 999"
      using picked [OF i] by (simp add: is_collected_sentinel marked_def)
    with sweep [OF i] show ?thesis by simp
  qed
  have b: "in_spawn_range (orbsRef g' ! i)"
    if i: "i < length (orbsRef g)" and c: "collector (horsemenRef g') (moved ! i) \<noteq> None" for i
  proof -
    from c have "x_of (Orb.position (snd (collect_all hs moved) ! i)) = - 999"
      using picked [OF i] by (auto simp: same marked_def)
    with sweep [OF i] show ?thesis by simp
  qed
  have P: "snd (collect_all hs moved) = picked (horsemenRef g') moved"
    by (simp add: collect_all_eq [OF far] picked_def same)
  have lenP: "length (picked (horsemenRef g') moved) = length (orbsRef g)"
    by (simp add: picked_def moved_def)
  have exact: "orbsRef g' ! i =
      (if x_of (Orb.position (picked (horsemenRef g') moved ! i)) = - 999
       then respawned rand (n + draws_before (picked (horsemenRef g') moved) i)
              (picked (horsemenRef g') moved ! i)
       else picked (horsemenRef g') moved ! i)"
    if "i < length (orbsRef g)" for i
    using that respawn_orbs_exact [of i "picked (horsemenRef g') moved" rand n]
    by (simp add: orbs P lenP)
  have d: "orbsRef g' ! i =
      respawned rand (n + draws_before (picked (horsemenRef g') moved) i) (moved ! i)"
    if i: "i < length (orbsRef g)" and
      c: "is_collected (orbsRef g ! i) \<or> collector (horsemenRef g') (moved ! i) \<noteq> None" for i
  proof -
    from i have m: "moved ! i = move_orb delta (orbsRef g ! i)" by (simp add: moved_def)
    from c have "is_collected (moved ! i) \<or> collector (horsemenRef g') (moved ! i) \<noteq> None"
      by (auto simp: m move_orb_collected)
    then have "x_of (Orb.position (snd (collect_all hs moved) ! i)) = - 999"
      using picked [OF i] by (auto simp: same marked_def is_collected_sentinel)
    moreover have "respawned rand k (snd (collect_all hs moved) ! i) = respawned rand k (moved ! i)"
      for k
      using picked [OF i] by (simp add: respawned_marked)
    ultimately show ?thesis using exact [OF i] by (simp add: P [symmetric])
  qed
  have e: "orbsRef g' ! i = moved ! i"
    if i: "i < length (orbsRef g)" and
      c: "x_of (Orb.position (picked (horsemenRef g') moved ! i)) \<noteq> - 999" for i
  proof -
    from c have "collector hs (moved ! i) = None"
      using picked [OF i] by (auto simp: P [symmetric] marked_def split: if_splits)
    with picked [OF i] have "picked (horsemenRef g') moved ! i = moved ! i"
      by (simp add: P [symmetric])
    with exact [OF i] c show ?thesis by simp
  qed
  have c: "x_of (Orb.position orb) \<noteq> - 999" if "orb \<in> set (orbsRef g')" for orb
  proof -
    from that obtain i where i: "i < length (orbsRef g')" "orbsRef g' ! i = orb"
      by (auto simp: in_set_conv_nth)
    with len have "i < length (orbsRef g)" by simp
    from sweep [OF this] i(2) show ?thesis
      by (cases "x_of (Orb.position (snd (collect_all hs moved) ! i)) = - 999")
        (auto dest: in_spawn_range_not_sentinel)
  qed
  show ?thesis
  proof (intro exI [of _ g'] conjI allI ballI impI)
    show "step rand clock timestamp g = Inr g'" by (rule g')
    show "orbTimer g' = 0" by (rule timer)
    show "length (orbsRef g') = length (orbsRef g)" by (rule len)
  next
    fix i assume "i < length (orbsRef g)" "is_collected (orbsRef g ! i)"
    then show "in_spawn_range (orbsRef g' ! i)" by (rule a)
  next
    fix i
    assume "i < length (orbsRef g)"
      "collector (horsemenRef g') (move_orb (timestamp - lastTime g) (orbsRef g ! i)) \<noteq> None"
    then show "in_spawn_range (orbsRef g' ! i)"
      using b [of i] by (simp add: moved_def delta_def)
  next
    fix orb assume "orb \<in> set (orbsRef g')"
    then show "x_of (Orb.position orb) \<noteq> - 999" by (rule c)
  next
    fix i
    assume "i < length (orbsRef g)"
      "is_collected (orbsRef g ! i) \<or>
       collector (horsemenRef g') (move_orb (timestamp - lastTime g) (orbsRef g ! i)) \<noteq> None"
    then show "orbsRef g' ! i =
        respawned rand
          (randoms (updateClouds rand (timestamp - lastTime g) g) +
           draws_before
             (picked (horsemenRef g') (map (move_orb (timestamp - lastTime g)) (orbsRef g))) i)
          (move_orb (timestamp - lastTime g) (orbsRef g ! i))"
      using d [of i] by (simp add: moved_def delta_def n_def)
  next
    fix i
    assume "i < length (orbsRef g)"
      "x_of (Orb.position
         (picked (horsemenRef g') (map (move_orb (timestamp - lastTime g)) (orbsRef g)) ! i)) \<noteq> - 999"
    then show "orbsRef g' ! i = move_orb (timestamp - lastTime g) (orbsRef g ! i)"
      using e [of i] by (simp add: moved_def delta_def)
  qed
qed

theorem respawn_is_batched_witness:
  "\<exists>g'. step demo_draw demo_clock 1016
          (demo_game [demo_horseman 0 ''Aurora'' \<lparr>x_of = 500, y_of = 280\<rparr> \<lparr>x_of = 0, y_of = 0\<rparr>]
             [demo_orb 0 \<lparr>x_of = 500, y_of = 300\<rparr> \<lparr>x_of = 0, y_of = 0\<rparr>,
              demo_orb 1 \<lparr>x_of = - 999, y_of = - 999\<rparr> \<lparr>x_of = 0, y_of = 0\<rparr>,
              demo_orb 2 \<lparr>x_of = 200, y_of = 100\<rparr> \<lparr>x_of = 1, y_of = 0\<rparr>]
             Map.empty 11990) = Inr g' \<and>
        orbTimer g' = 0 \<and>
        Orb.position (orbsRef g' ! 0) = \<lparr>x_of = 480, y_of = 560 / 3\<rparr> \<and>
        Orb.velocity (orbsRef g' ! 0) = \<lparr>x_of = - 0.25, y_of = - 0.24\<rparr> \<and>
        Orb.position (orbsRef g' ! 1) = \<lparr>x_of = 640 / 3, y_of = 880 / 7\<rparr> \<and>
        Orb.velocity (orbsRef g' ! 1) = \<lparr>x_of = - 3 / 8, y_of = - 14 / 45\<rparr> \<and>
        Orb.position (orbsRef g' ! 2) = \<lparr>x_of = 201, y_of = 100\<rparr> \<and>
        Orb.velocity (orbsRef g' ! 2) = \<lparr>x_of = 1, y_of = 0\<rparr>"
  using respawn_is_batched [of
      "demo_game [demo_horseman 0 ''Aurora'' \<lparr>x_of = 500, y_of = 280\<rparr> \<lparr>x_of = 0, y_of = 0\<rparr>]
         [demo_orb 0 \<lparr>x_of = 500, y_of = 300\<rparr> \<lparr>x_of = 0, y_of = 0\<rparr>,
          demo_orb 1 \<lparr>x_of = - 999, y_of = - 999\<rparr> \<lparr>x_of = 0, y_of = 0\<rparr>,
          demo_orb 2 \<lparr>x_of = 200, y_of = 100\<rparr> \<lparr>x_of = 1, y_of = 0\<rparr>]
         Map.empty 11990" 0 demo_draw 1016 demo_clock]
  by (simp add: tick_eval demo_defs demo_draw_def)

section \<open>The order of a tick\<close>

lemma forEach_cloud_Cons:
  "forEach_cloud rand delta (cloud # clouds) n =
     (let cloud1 = fst (move_cloud rand n delta cloud);
          rest = forEach_cloud rand delta clouds (snd (move_cloud rand n delta cloud))
      in (cloud1 # fst rest, fst (snd rest),
          Cloud_moved (Cloud.ident cloud1) # Cloud_painted cloud1 # snd (snd rest)))"
  by (simp add: Let_def split: prod.splits)

lemma forEach_cloud_events:
  "snd (snd (forEach_cloud rand delta clouds n)) =
   concat (map (\<lambda>cloud. [Cloud_moved (Cloud.ident cloud), Cloud_painted cloud])
             (fst (forEach_cloud rand delta clouds n)))"
  by (induction clouds arbitrary: n)
    (simp_all add: forEach_cloud_Cons Let_def del: forEach_cloud.simps(2))

lemma step_trace:
  assumes "step rand clock timestamp g = Inr g'"
  shows "trace g' =
     [Cleared, Background_painted] @
     concat (map (\<lambda>cloud. [Cloud_moved (Cloud.ident cloud), Cloud_painted cloud]) (cloudsRef g')) @
     [Horsemen_updated, Orbs_updated] @
     map (\<lambda>(idx, horseman). Horseman_painted horseman (Some (real idx) = activeHorseman g'))
       (enumerate 0 (horsemenRef g')) @
     map Orb_painted (filter (\<lambda>orb. x_of (Orb.position orb) \<noteq> - 999) (orbsRef g')) @
     Hint_painted #
     map (\<lambda>(idx, horseman).
            Panel_painted idx (name horseman) (score horseman)
              (Some (real idx) = activeHorseman g'))
       (enumerate 0 (horsemenRef g'))"
  using assms
  by (auto simp: step_def Let_def updateOrbs_def drawHorsemen_def drawOrbs_def drawUI_def
      requestAnimationFrame_def
      clearRect_def drawBackground_def forEach_cloud_events split: sum.splits prod.splits)

lemma step_paints_no_sentinel:
  assumes "step rand clock timestamp g = Inr g'" and "Orb_painted orb \<in> set (trace g')"
  shows "x_of (Orb.position orb) \<noteq> - 999"
  using assms(2) unfolding step_trace [OF assms(1)] by (auto split: prod.splits)

lemma step_paints_then_updates:
  assumes "step rand clock timestamp g = Inr g'"
  shows "\<not> updates_before_paints (trace g')"
  unfolding step_trace [OF assms] by simp

text \<open>
  Claim C8. Once an orb is collected it stays exactly at the sentinel (-999, -999) with
  velocity exactly (0, 0) through every tick that does not run the respawn sweep, and the
  renderer does not paint it; by induction on the ticks this holds until the next sweep,
  so the tests on \<open>position.x\<close> of the sweep and of the renderer find it.
\<close>

theorem collected_orb_stays_at_sentinel:
  assumes "activeHorseman g = Some (real a)" and "a < length (horsemenRef g)"
    and "i < length (orbsRef g)" and "is_collected (orbsRef g ! i)"
    and "\<not> ORB_RESPAWN_TIME < orbTimer g + (timestamp - lastTime g)"
  shows "\<exists>g'. step rand clock timestamp g = Inr g' \<and>
           Orb.position (orbsRef g' ! i) = \<lparr>x_of = - 999, y_of = - 999\<rparr> \<and>
           Orb.velocity (orbsRef g' ! i) = \<lparr>x_of = 0, y_of = 0\<rparr> \<and>
           Orb_painted (orbsRef g' ! i) \<notin> set (trace g')"
proof -
  define moved where "moved = map (move_orb (timestamp - lastTime g)) (orbsRef g)"
  from step_defined [OF assms(1,2)] obtain g' where g': "step rand clock timestamp g = Inr g'"
    by blast
  from step_world [OF g'] assms(5) obtain hs where
    orbs: "orbsRef g' = snd (collect_all hs moved)"
    unfolding moved_def by (auto simp: Let_def)
  have i: "i < length moved" using assms(3) by (simp add: moved_def)
  have "is_collected (moved ! i)"
    using assms(3,4) by (simp add: moved_def move_orb_collected)
  with collect_all_keeps_collected [OF i] orbs have c: "is_collected (orbsRef g' ! i)"
    by simp
  then have "x_of (Orb.position (orbsRef g' ! i)) = - 999" by (rule is_collected_sentinel)
  with step_paints_no_sentinel [OF g'] have "Orb_painted (orbsRef g' ! i) \<notin> set (trace g')"
    by blast
  with c g' show ?thesis by (auto simp: is_collected_def)
qed

theorem collected_orb_stays_at_sentinel_witness:
  "\<exists>g'. step demo_rand demo_clock 1016
          (demo_game [demo_horseman 0 ''Aurora'' \<lparr>x_of = 500, y_of = 280\<rparr> \<lparr>x_of = 0, y_of = 0\<rparr>]
             [demo_orb 0 \<lparr>x_of = - 999, y_of = - 999\<rparr> \<lparr>x_of = 0, y_of = 0\<rparr>]
             Map.empty 5000) = Inr g' \<and>
        Orb.position (orbsRef g' ! 0) = \<lparr>x_of = - 999, y_of = - 999\<rparr> \<and>
        Orb.velocity (orbsRef g' ! 0) = \<lparr>x_of = 0, y_of = 0\<rparr> \<and>
        orbTimer g' = 5016"
  using collected_orb_stays_at_sentinel [of
      "demo_game [demo_horseman 0 ''Aurora'' \<lparr>x_of = 500, y_of = 280\<rparr> \<lparr>x_of = 0, y_of = 0\<rparr>]
         [demo_orb 0 \<lparr>x_of = - 999, y_of = - 999\<rparr> \<lparr>x_of = 0, y_of = 0\<rparr>]
         Map.empty 5000" 0 0 1016 demo_rand demo_clock]
  by (simp add: tick_eval demo_defs is_collected_def)

text \<open>
  Claim C4, as it is stated, fails: the background and the clouds are painted before the
  agents and the orbs are updated, and a cloud is painted before the next cloud is moved.
\<close>

theorem physics_before_rendering_counterexample:
  "\<not> isl (step demo_rand demo_clock 1016 demo_world) \<and>
   trace (projr (step demo_rand demo_clock 1016 demo_world)) ! 1 = Background_painted \<and>
   Horsemen_updated \<in> set (drop 2 (trace (projr (step demo_rand demo_clock 1016 demo_world)))) \<and>
   \<not> updates_before_paints (trace (projr (step demo_rand demo_clock 1016 demo_world)))"
proof -
  have "activeHorseman demo_world = Some (real 0)" and "0 < length (horsemenRef demo_world)"
    by (simp_all add: demo_defs)
  from step_defined [OF this] obtain g' where
    g': "step demo_rand demo_clock 1016 demo_world = Inr g'" by blast
  have "trace g' ! 1 = Background_painted" and "Horsemen_updated \<in> set (drop 2 (trace g'))"
    unfolding step_trace [OF g'] by simp_all
  with step_paints_then_updates [OF g'] g' show ?thesis by simp
qed

text \<open>
  Claim C4, amended. In every tick the canvas is cleared and the background is painted
  first; then the clouds are moved and painted one by one, each right after its own move;
  then all agents are updated, from the held keys, which the tick leaves as they are; then
  all orbs; and then the agents, the orbs that are not collected and the HUD are painted.
  Every object is painted as the tick leaves it.
\<close>

theorem tick_order:
  assumes "activeHorseman g = Some (real a)" and "a < length (horsemenRef g)"
  shows "\<exists>g'. step rand clock timestamp g = Inr g' \<and>
           pressedKeys g' = pressedKeys g \<and>
           trace g' =
             [Cleared, Background_painted] @
             concat (map (\<lambda>cloud. [Cloud_moved (Cloud.ident cloud), Cloud_painted cloud])
                       (cloudsRef g')) @
             [Horsemen_updated, Orbs_updated] @
             map (\<lambda>(idx, horseman). Horseman_painted horseman (Some (real idx) = activeHorseman g'))
               (enumerate 0 (horsemenRef g')) @
             map Orb_painted (filter (\<lambda>orb. x_of (Orb.position orb) \<noteq> - 999) (orbsRef g')) @
             Hint_painted #
             map (\<lambda>(idx, horseman).
                    Panel_painted idx (name horseman) (score horseman)
                      (Some (real idx) = activeHorseman g'))
               (enumerate 0 (horsemenRef g'))"
proof -
  from step_defined [OF assms] obtain g' where g': "step rand clock timestamp g = Inr g'"
    by blast
  from step_world [OF g'] have "pressedKeys g' = pressedKeys g" by blast
  with g' step_trace [OF g'] show ?thesis by blast
qed

theorem tick_order_witness:
  "\<exists>g'. step demo_rand demo_clock 1016
          (demo_game [demo_horseman 0 ''Aurora'' \<lparr>x_of = 500, y_of = 280\<rparr> \<lparr>x_of = 0, y_of = 0\<rparr>]
             [demo_orb 0 \<lparr>x_of = - 999, y_of = - 999\<rparr> \<lparr>x_of = 0, y_of = 0\<rparr>] Map.empty 0) = Inr g' \<and>
        trace g' =
          [Cleared, Background_painted, Cloud_moved 0,
           Cloud_painted (demo_cloud\<lparr>Cloud.position := \<lparr>x_of = 480.4, y_of = 280\<rparr>\<rparr>),
           Horsemen_updated, Orbs_updated,
           Horseman_painted
             (demo_horseman 0 ''Aurora'' \<lparr>x_of = 500, y_of = 280\<rparr> \<lparr>x_of = 0, y_of = 0\<rparr>) True,
           Hint_painted, Panel_painted 0 ''Aurora'' 0 True]"
  using tick_order [of
      "demo_game [demo_horseman 0 ''Aurora'' \<lparr>x_of = 500, y_of = 280\<rparr> \<lparr>x_of = 0, y_of = 0\<rparr>]
         [demo_orb 0 \<lparr>x_of = - 999, y_of = - 999\<rparr> \<lparr>x_of = 0, y_of = 0\<rparr>] Map.empty 0"
      0 demo_rand demo_clock 1016]
  by (simp add: tick_eval demo_defs)

section \<open>Switching the controlled agent\<close>

lemma digit_keys:
  "''1'' \<le> ''1'' \<and> ''1'' \<le> ''4''" "''1'' \<le> ''2'' \<and> ''2'' \<le> ''4''"
  "''1'' \<le> ''3'' \<and> ''3'' \<le> ''4''" "''1'' \<le> ''4'' \<and> ''4'' \<le> ''4''"
  "toLowerCase ''1'' = ''1''" "toLowerCase ''2'' = ''2''"
  "toLowerCase ''3'' = ''3''" "toLowerCase ''4'' = ''4''"
  by (simp_all add: toLowerCase_def lower_char_def)

lemmas switch_defs = handleKeyDown_def setActiveHorseman_def effect_start_def
  effect_cleanup_def requestAnimationFrame_def cancelAnimationFrame_def Let_def

text \<open>
  Claim C5, as it is stated, fails: pressing the digit of another agent resets the respawn
  timer and the previous-frame timestamp.
\<close>

theorem switch_resets_timer_counterexample:
  "orbTimer demo_world = 5000 \<and>
   orbTimer (handleKeyDown demo_number ''2'' 2000 demo_world) = 0 \<and>
   lastTime demo_world = 1000 \<and>
   lastTime (handleKeyDown demo_number ''2'' 2000 demo_world) = 2000"
  by (simp add: switch_defs digit_keys demo_number_def demo_world_def demo_game_def)

text \<open>
  Claim C5, amended. A digit key that selects another agent makes React tear the frame
  loop down and start it again: the frame that was requested is cancelled and a new one,
  with a new handle, is requested, the respawn timer is reset to 0 and the previous-frame
  timestamp is reset to the time of the restart; the agents, the orbs and the clouds
  carry over, and the key is recorded as held. A digit key that selects the agent that is
  already controlled leaves the timer, the timestamp and the requested frame as they are.
  (\<open>Number\<close> reads the four digit keys as 1 to 4; the loop is running, with the handle
  \<open>h\<close> of its requested frame in \<open>rafRef\<close>.)
\<close>

theorem switch_restarts_loop:
  assumes "key \<in> {''1'', ''2'', ''3'', ''4''}"
    and "number ''1'' = Some 1" and "number ''2'' = Some 2"
    and "number ''3'' = Some 3" and "number ''4'' = Some 4"
    and "rafRef g = Some h" and "0 < h" and "h < nextFrame g"
    and "g' = handleKeyDown number key now g"
  shows "activeHorseman g' =
           (if key = ''1'' then Some 0 else if key = ''2'' then Some 1
            else if key = ''3'' then Some 2 else Some 3) \<and>
         horsemenRef g' = horsemenRef g \<and> orbsRef g' = orbsRef g \<and> cloudsRef g' = cloudsRef g \<and>
         pressedKeys g' = (pressedKeys g)(key \<mapsto> True) \<and>
         (activeHorseman g' \<noteq> activeHorseman g \<longrightarrow>
            orbTimer g' = 0 \<and> lastTime g' = now \<and>
            h \<notin> frames g' \<and> nextFrame g \<in> frames g' \<and>
            frames g' = insert (nextFrame g) (frames g - {h}) \<and>
            rafRef g' = Some (nextFrame g) \<and> nextFrame g' = Suc (nextFrame g)) \<and>
         (activeHorseman g' = activeHorseman g \<longrightarrow>
            orbTimer g' = orbTimer g \<and> lastTime g' = lastTime g \<and>
            frames g' = frames g \<and> rafRef g' = rafRef g \<and> nextFrame g' = nextFrame g)"
proof -
  from assms(7,8) have fresh: "h \<noteq> nextFrame g" "h \<noteq> 0" by simp_all
  from assms(1) consider "key = ''1''" | "key = ''2''" | "key = ''3''" | "key = ''4''" by auto
  then show ?thesis
  proof cases
    case 1
    with assms(2,6,9) fresh show ?thesis by (simp add: switch_defs digit_keys)
  next
    case 2
    with assms(3,6,9) fresh show ?thesis by (simp add: switch_defs digit_keys)
  next
    case 3
    with assms(4,6,9) fresh show ?thesis by (simp add: switch_defs digit_keys)
  next
    case 4
    with assms(5,6,9) fresh show ?thesis by (simp add: switch_defs digit_keys)
  qed
qed

theorem switch_restarts_loop_witness:
  "activeHorseman (handleKeyDown demo_number ''3'' 2000 demo_world) = Some 2 \<and>
   orbTimer (handleKeyDown demo_number ''3'' 2000 demo_world) = 0 \<and>
   lastTime (handleKeyDown demo_number ''3'' 2000 demo_world) = 2000 \<and>
   frames demo_world = {1} \<and>
   frames (handleKeyDown demo_number ''3'' 2000 demo_world) = {2} \<and>
   rafRef (handleKeyDown demo_number ''3'' 2000 demo_world) = Some 2 \<and>
   orbTimer (handleKeyDown demo_number ''1'' 2000 demo_world) = 5000 \<and>
   lastTime (handleKeyDown demo_number ''1'' 2000 demo_world) = 1000 \<and>
   frames (handleKeyDown demo_number ''1'' 2000 demo_world) = {1}"
  using switch_restarts_loop [of "''3''" demo_number demo_world 1 _ 2000, OF _ _ _ _ _ _ _ _ refl]
    switch_restarts_loop [of "''1''" demo_number demo_world 1 _ 2000, OF _ _ _ _ _ _ _ _ refl]
  by (simp add: demo_number_def demo_world_def demo_game_def)

section \<open>The orb boundary rule\<close>

text \<open>
  Claim C9. An orb's position is never clamped: a tick moves it by its velocity and leaves
  it there, and negates a component of the velocity whenever the moved position is outside
  the band [50, 910] x [50, 510], whatever the direction of the velocity. So an orb can
  lie outside the band after a tick, and an orb outside the band whose velocity points
  inward has it turned outward again: the orb spawned with random numbers 0 is at
  x = 49.6 with velocity 0.4 after a tick of 1216 ms, and at x = 49.8 with velocity -0.4
  after a further tick of 8 ms.
\<close>

theorem orbs_are_not_clamped:
  "Orb.position (move_orb delta orb) =
     \<lparr>x_of = x_of (Orb.position orb) + x_of (Orb.velocity orb) * (delta / 16),
      y_of = y_of (Orb.position orb) + y_of (Orb.velocity orb) * (delta / 16)\<rparr> \<and>
   x_of (Orb.velocity (move_orb delta orb)) =
     (if x_of (Orb.position (move_orb delta orb)) < 50 \<or>
         CANVAS_WIDTH - 50 < x_of (Orb.position (move_orb delta orb))
      then - x_of (Orb.velocity orb) else x_of (Orb.velocity orb)) \<and>
   y_of (Orb.velocity (move_orb delta orb)) =
     (if y_of (Orb.position (move_orb delta orb)) < 50 \<or>
         CANVAS_HEIGHT - 50 < y_of (Orb.position (move_orb delta orb))
      then - y_of (Orb.velocity orb) else y_of (Orb.velocity orb)) \<and>
   (\<exists>g1 g2.
      step demo_rand demo_clock 2216
        (demo_game [demo_horseman 0 ''Aurora'' \<lparr>x_of = 500, y_of = 280\<rparr> \<lparr>x_of = 0, y_of = 0\<rparr>]
           [fst (spawn_orb (\<lambda>n. 0) 0 0)] Map.empty 0) = Inr g1 \<and>
      step demo_rand demo_clock 2224 g1 = Inr g2 \<and>
      x_of (Orb.position (orbsRef g1 ! 0)) = 49.6 \<and> x_of (Orb.velocity (orbsRef g1 ! 0)) = 0.4 \<and>
      x_of (Orb.position (orbsRef g2 ! 0)) = 49.8 \<and> x_of (Orb.velocity (orbsRef g2 ! 0)) = - 0.4)"
proof -
  have general: "Orb.position (move_orb delta orb) =
     \<lparr>x_of = x_of (Orb.position orb) + x_of (Orb.velocity orb) * (delta / 16),
      y_of = y_of (Orb.position orb) + y_of (Orb.velocity orb) * (delta / 16)\<rparr> \<and>
   x_of (Orb.velocity (move_orb delta orb)) =
     (if x_of (Orb.position (move_orb delta orb)) < 50 \<or>
         CANVAS_WIDTH - 50 < x_of (Orb.position (move_orb delta orb))
      then - x_of (Orb.velocity orb) else x_of (Orb.velocity orb)) \<and>
   y_of (Orb.velocity (move_orb delta orb)) =
     (if y_of (Orb.position (move_orb delta orb)) < 50 \<or>
         CANVAS_HEIGHT - 50 < y_of (Orb.position (move_orb delta orb))
      then - y_of (Orb.velocity orb) else y_of (Orb.velocity orb))"
    by (simp add: move_orb_def Let_def)
  define h0 where "h0 = demo_horseman 0 ''Aurora'' \<lparr>x_of = 500, y_of = 280\<rparr> \<lparr>x_of = 0, y_of = 0\<rparr>"
  define g0 where "g0 = demo_game [h0] [fst (spawn_orb (\<lambda>n. 0) 0 0)] Map.empty 0"
  have "\<exists>g1. step demo_rand demo_clock 2216 g0 = Inr g1 \<and>
          horsemenRef g1 = [h0] \<and>
          Orb.position (orbsRef g1 ! 0) = \<lparr>x_of = 49.6, y_of = 57.2\<rparr> \<and>
          Orb.velocity (orbsRef g1 ! 0) = \<lparr>x_of = 0.4, y_of = - 0.3\<rparr> \<and>
          length (orbsRef g1) = 1 \<and>
          pressedKeys g1 = Map.empty \<and> activeHorseman g1 = Some 0 \<and>
          lastTime g1 = 2216 \<and> orbTimer g1 = 1216"
    by (simp add: g0_def h0_def tick_eval demo_defs spawn_orb_def)
  then obtain g1 where
    s1: "step demo_rand demo_clock 2216 g0 = Inr g1" and
    hs1: "horsemenRef g1 = [h0]" and
    p1: "Orb.position (orbsRef g1 ! 0) = \<lparr>x_of = 49.6, y_of = 57.2\<rparr>" and
    v1: "Orb.velocity (orbsRef g1 ! 0) = \<lparr>x_of = 0.4, y_of = - 0.3\<rparr>" and
    n1: "length (orbsRef g1) = 1" and
    k1: "pressedKeys g1 = Map.empty" and a1: "activeHorseman g1 = Some 0" and
    t1: "lastTime g1 = 2216" and r1: "orbTimer g1 = 1216"
    by blast
  from n1 obtain orb1 where o1: "orbsRef g1 = [orb1]"
    by (cases "orbsRef g1") auto
  from step_defined [of g1 0 demo_rand demo_clock 2224] a1 hs1 obtain g2 where
    s2: "step demo_rand demo_clock 2224 g1 = Inr g2" by auto
  have "updateHorsemen 8 demo_clock Map.empty (Some 0) [h0] = Inr [h0]"
    by (simp add: h0_def tick_eval demo_defs)
  with step_world [OF s2] have "orbsRef g2 = snd (collect_all [h0] [move_orb 8 orb1])"
    by (simp add: hs1 k1 a1 t1 r1 o1 game_consts)
  moreover have "\<not> in_reach h0 (move_orb 8 orb1)"
    using p1 v1 o1
    by (simp add: in_reach_def move_orb_def distance_def Let_def h0_def demo_horseman_def
        sqrt_less_42 power_divide)
  ultimately have "orbsRef g2 = [move_orb 8 orb1]"
    by (simp add: collect_orbs_eq)
  with p1 v1 o1 have
    "x_of (Orb.position (orbsRef g2 ! 0)) = 49.8 \<and> x_of (Orb.velocity (orbsRef g2 ! 0)) = - 0.4"
    by (simp add: move_orb_def Let_def game_consts)
  with s1 s2 p1 v1 have example: "\<exists>g1 g2.
      step demo_rand demo_clock 2216
        (demo_game [demo_horseman 0 ''Aurora'' \<lparr>x_of = 500, y_of = 280\<rparr> \<lparr>x_of = 0, y_of = 0\<rparr>]
           [fst (spawn_orb (\<lambda>n. 0) 0 0)] Map.empty 0) = Inr g1 \<and>
      step demo_rand demo_clock 2224 g1 = Inr g2 \<and>
      x_of (Orb.position (orbsRef g1 ! 0)) = 49.6 \<and> x_of (Orb.velocity (orbsRef g1 ! 0)) = 0.4 \<and>
      x_of (Orb.position (orbsRef g2 ! 0)) = 49.8 \<and> x_of (Orb.velocity (orbsRef g2 ! 0)) = - 0.4"
    unfolding g0_def h0_def by (intro exI [of _ g1] exI [of _ g2]) simp
  from general example show ?thesis by (intro conjI) simp_all
qed

section \<open>Holding the right arrow\<close>

lemma only_right_held:
  assumes "\<forall>k. held ks k \<longleftrightarrow> k = ''arrowright''"
  shows "horizontal ks = 1" and "boost ks = 1"
  using assms by (simp_all add: horizontal_def boost_def)

lemma scenario_tick:
  assumes "horizontal ks = 1" and "boost ks = 1"
  shows "(x_of (Horseman.position (advance 16 (steer ks h))),
          x_of (Horseman.velocity (advance 16 (steer ks h)))) =
         right_tick (x_of (Horseman.position h), x_of (Horseman.velocity h))"
  using assms by (simp add: right_tick_def advance_def steer_def Let_def)

lemma run_right:
  assumes "activeHorseman g = Some (real a)" and "a < length (horsemenRef g)"
    and "\<forall>k. held (pressedKeys g) k \<longleftrightarrow> k = ''arrowright''"
  shows "\<exists>g'. run rand clocks 16 n g = Inr g' \<and>
           activeHorseman g' = Some (real a) \<and> pressedKeys g' = pressedKeys g \<and>
           length (horsemenRef g') = length (horsemenRef g) \<and>
           (x_of (Horseman.position (horsemenRef g' ! a)),
            x_of (Horseman.velocity (horsemenRef g' ! a))) =
           (right_tick ^^ n) (x_of (Horseman.position (horsemenRef g ! a)),
                              x_of (Horseman.velocity (horsemenRef g ! a)))"
proof (induction n)
  case 0
  show ?case using assms by simp
next
  case (Suc n)
  then obtain g1 where
    r: "run rand clocks 16 n g = Inr g1" and
    a1: "activeHorseman g1 = Some (real a)" and k1: "pressedKeys g1 = pressedKeys g" and
    l1: "length (horsemenRef g1) = length (horsemenRef g)" and
    s1: "(x_of (Horseman.position (horsemenRef g1 ! a)),
          x_of (Horseman.velocity (horsemenRef g1 ! a))) =
         (right_tick ^^ n) (x_of (Horseman.position (horsemenRef g ! a)),
                            x_of (Horseman.velocity (horsemenRef g ! a)))"
    by blast
  from l1 assms(2) have a: "a < length (horsemenRef g1)" by simp
  from step_defined [OF a1 a] obtain g2 where
    g2: "step rand (clocks n) (lastTime g1 + 16) g1 = Inr g2" by blast
  have keys: "horizontal (pressedKeys g1) = 1" "boost (pressedKeys g1) = 1"
    using only_right_held [OF assms(3)] by (simp_all add: k1)
  from step_active [OF g2 a1 a] scenario_tick [OF keys, of "horsemenRef g1 ! a"]
  have "(x_of (Horseman.position (horsemenRef g2 ! a)),
         x_of (Horseman.velocity (horsemenRef g2 ! a))) =
        right_tick (x_of (Horseman.position (horsemenRef g1 ! a)),
                    x_of (Horseman.velocity (horsemenRef g1 ! a)))"
    by simp
  with s1 have "(x_of (Horseman.position (horsemenRef g2 ! a)),
         x_of (Horseman.velocity (horsemenRef g2 ! a))) =
        (right_tick ^^ Suc n) (x_of (Horseman.position (horsemenRef g ! a)),
                                x_of (Horseman.velocity (horsemenRef g ! a)))"
    by simp
  moreover from step_world [OF g2] have "activeHorseman g2 = Some (real a)" "pressedKeys g2 = pressedKeys g"
    using a1 k1 by auto
  moreover from step_agents(1) [OF g2 a] l1 have "length (horsemenRef g2) = length (horsemenRef g)"
    by simp
  ultimately show ?case using r g2 by simp
qed

lemma agent_after_right:
  assumes "activeHorseman g = Some (real a)" and "a < length (horsemenRef g)"
    and "\<forall>k. held (pressedKeys g) k \<longleftrightarrow> k = ''arrowright''"
  shows "\<not> isl (run rand clocks 16 n g)"
    and "x_of (Horseman.position (agent_after rand clocks 16 n g a)) =
         fst ((right_tick ^^ n) (x_of (Horseman.position (horsemenRef g ! a)),
                                 x_of (Horseman.velocity (horsemenRef g ! a))))"
    and "x_of (Horseman.velocity (agent_after rand clocks 16 n g a)) =
         snd ((right_tick ^^ n) (x_of (Horseman.position (horsemenRef g ! a)),
                                 x_of (Horseman.velocity (horsemenRef g ! a))))"
proof -
  from run_right [OF assms, of rand clocks n] obtain g' where
    "run rand clocks 16 n g = Inr g'"
    "(x_of (Horseman.position (horsemenRef g' ! a)),
      x_of (Horseman.velocity (horsemenRef g' ! a))) =
     (right_tick ^^ n) (x_of (Horseman.position (horsemenRef g ! a)),
                        x_of (Horseman.velocity (horsemenRef g ! a)))"
    by blast
  then show "\<not> isl (run rand clocks 16 n g)"
    and "x_of (Horseman.position (agent_after rand clocks 16 n g a)) =
         fst ((right_tick ^^ n) (x_of (Horseman.position (horsemenRef g ! a)),
                                 x_of (Horseman.velocity (horsemenRef g ! a))))"
    and "x_of (Horseman.velocity (agent_after rand clocks 16 n g a)) =
         snd ((right_tick ^^ n) (x_of (Horseman.position (horsemenRef g ! a)),
                                 x_of (Horseman.velocity (horsemenRef g ! a))))"
    by (simp_all add: agent_after_def) (metis fst_conv, metis snd_conv)
qed

lemma right_tick_free:
  assumes "0 \<le> v" and "500 \<le> p" and "p + min (v + 0.24) 7.4 \<le> 920"
  shows "right_tick (p, v) = (p + min (v + 0.24) 7.4, min (v + 0.24) 7.4 * 0.985)"
  using assms by (simp add: right_tick_def Let_def clamp_def game_consts min_def max_def)

lemma right_tick_wall:
  assumes "0 \<le> v" and "500 \<le> p" and "920 < p + min (v + 0.24) 7.4"
  shows "right_tick (p, v) = (920, min (v + 0.24) 7.4 * 0.985 * (- 0.7))"
  using assms by (simp add: right_tick_def Let_def clamp_def game_consts min_def max_def)

lemma right_tick_speed: "snd (right_tick s) \<le> 7.4"
proof -
  define vx where "vx = clamp (snd s + HORSEMAN_ACCEL) (- HORSEMAN_MAX_SPEED) HORSEMAN_MAX_SPEED"
  have "\<bar>vx\<bar> \<le> HORSEMAN_MAX_SPEED"
    unfolding vx_def by (rule clamp_abs) (simp add: game_consts)
  then have "vx * HORSEMAN_FRICTION \<le> 7.4" and "vx * HORSEMAN_FRICTION * (- 0.7) \<le> 7.4"
    by (simp_all add: game_consts abs_le_iff)
  moreover have "snd (right_tick s) = vx * HORSEMAN_FRICTION \<or>
                 snd (right_tick s) = vx * HORSEMAN_FRICTION * (- 0.7)"
    by (simp add: right_tick_def Let_def vx_def)
  ultimately show ?thesis by auto
qed

lemma glide_invariant:
  assumes "\<forall>k\<le>n. fst ((right_tick ^^ k) (500, 0)) < 920"
  shows "0 \<le> snd ((right_tick ^^ n) (500, 0)) \<and> snd ((right_tick ^^ n) (500, 0)) \<le> 7.289 \<and>
         500 \<le> fst ((right_tick ^^ n) (500, 0))"
  using assms
proof (induction n)
  case 0
  show ?case by simp
next
  case (Suc n)
  define p where "p = fst ((right_tick ^^ n) (500, 0))"
  define v where "v = snd ((right_tick ^^ n) (500, 0))"
  have s: "(right_tick ^^ Suc n) (500, 0) = right_tick (p, v)"
    by (simp add: p_def v_def)
  from Suc.prems have "\<forall>k\<le>n. fst ((right_tick ^^ k) (500, 0)) < 920" by simp
  from Suc.IH [OF this] have iv: "0 \<le> v" "v \<le> 7.289" "500 \<le> p"
    by (simp_all add: p_def v_def)
  from Suc.prems have next_free: "fst (right_tick (p, v)) < 920"
    using s by (metis le_refl)
  have "p + min (v + 0.24) 7.4 \<le> 920"
  proof (rule ccontr)
    assume "\<not> p + min (v + 0.24) 7.4 \<le> 920"
    then have "920 < p + min (v + 0.24) 7.4" by simp
    from right_tick_wall [OF iv(1) iv(3) this] next_free show False by simp
  qed
  from right_tick_free [OF iv(1) iv(3) this] iv show ?case
    unfolding s by (simp add: min_def)
qed

lemma glide_position_increases:
  assumes "\<forall>k\<le>n. fst ((right_tick ^^ k) (500, 0)) < 920"
  shows "fst ((right_tick ^^ n) (500, 0)) < fst ((right_tick ^^ Suc n) (500, 0))"
proof -
  define p where "p = fst ((right_tick ^^ n) (500, 0))"
  define v where "v = snd ((right_tick ^^ n) (500, 0))"
  have s: "(right_tick ^^ Suc n) (500, 0) = right_tick (p, v)"
    by (simp add: p_def v_def)
  from glide_invariant [OF assms] have iv: "0 \<le> v" "v \<le> 7.289" "500 \<le> p"
    by (simp_all add: p_def v_def)
  from assms have p: "p < 920" by (simp add: p_def)
  show ?thesis
  proof (cases "p + min (v + 0.24) 7.4 \<le> 920")
    case True
    from right_tick_free [OF iv(1) iv(3) True] iv(1) show ?thesis
      unfolding s p_def [symmetric] by (simp add: min_def)
  next
    case False
    then have "920 < p + min (v + 0.24) 7.4" by simp
    from right_tick_wall [OF iv(1) iv(3) this] p show ?thesis
      unfolding s p_def [symmetric] by simp
  qed
qed

lemma glide_velocity_increases:
  assumes "\<forall>k\<le>Suc n. fst ((right_tick ^^ k) (500, 0)) < 920"
  shows "snd ((right_tick ^^ n) (500, 0)) \<le> snd ((right_tick ^^ Suc n) (500, 0))"
proof -
  define p where "p = fst ((right_tick ^^ n) (500, 0))"
  define v where "v = snd ((right_tick ^^ n) (500, 0))"
  have s: "(right_tick ^^ Suc n) (500, 0) = right_tick (p, v)"
    by (simp add: p_def v_def)
  from assms have "\<forall>k\<le>n. fst ((right_tick ^^ k) (500, 0)) < 920" by simp
  from glide_invariant [OF this] have iv: "0 \<le> v" "v \<le> 7.289" "500 \<le> p"
    by (simp_all add: p_def v_def)
  from assms have next_free: "fst (right_tick (p, v)) < 920"
    using s by (metis le_refl)
  have "p + min (v + 0.24) 7.4 \<le> 920"
  proof (rule ccontr)
    assume "\<not> p + min (v + 0.24) 7.4 \<le> 920"
    then have "920 < p + min (v + 0.24) 7.4" by simp
    from right_tick_wall [OF iv(1) iv(3) this] next_free show False by simp
  qed
  from right_tick_free [OF iv(1) iv(3) this] iv show ?thesis
    unfolding s v_def [symmetric] by (simp add: min_def)
qed

text \<open>
  The first 41 ticks accelerate freely: the velocity is \<open>15.76 * (1 - 0.985 ^ n)\<close> and
  the position \<open>500 + 16 * n - (3152 / 3) * (1 - 0.985 ^ n)\<close>.
\<close>

lemma glide_accelerating:
  "n \<le> 41 \<Longrightarrow>
   (right_tick ^^ n) (500, 0) =
     (500 + 16 * real n - 3152 / 3 * (1 - 0.985 ^ n), 394 / 25 * (1 - 0.985 ^ n)) \<and>
   fst ((right_tick ^^ n) (500, 0)) \<le> 500 + 7.4 * real n \<and>
   500 \<le> fst ((right_tick ^^ n) (500, 0))"
proof (induction n)
  case 0
  show ?case by simp
next
  case (Suc n)
  define X :: real where "X = 0.985 ^ n"
  define p where "p = 500 + 16 * real n - 3152 / 3 * (1 - X)"
  define v where "v = 394 / 25 * (1 - X)"
  from Suc.prems have n: "n \<le> 40" and "n \<le> 41" by simp_all
  note raw = Suc.IH [OF \<open>n \<le> 41\<close>]
  have IH1: "(right_tick ^^ n) (500, 0) = (p, v)"
    unfolding p_def v_def X_def by (rule conjunct1 [OF raw])
  then have "fst ((right_tick ^^ n) (500, 0)) = p" by (simp only: fst_conv)
  with raw have IH2: "p \<le> 500 + 7.4 * real n" and IH3: "500 \<le> p" by (simp_all only:)
  note IH = IH1 IH2 IH3
  have A: "(0.985::real) ^ 40 \<le> 0.985 ^ n"
    using n by (intro power_decreasing) simp_all
  have B: "(0.5457::real) \<le> 0.985 ^ 40" by (simp add: power_divide)
  have X1: "0.5457 \<le> X" unfolding X_def using B A by (rule order_trans)
  have X2: "X \<le> 1" unfolding X_def by (intro power_le_one) simp_all
  have v0: "0 \<le> v" using X2 by (simp add: v_def)
  have v1: "v + 0.24 \<le> 7.4" using X1 by (simp add: v_def field_simps)
  then have m: "min (v + 0.24) 7.4 = v + 0.24" by simp
  have "real n \<le> 40" using n by simp
  with IH(2) v1 have "p + min (v + 0.24) 7.4 \<le> 920" unfolding m by (simp add: field_simps)
  from right_tick_free [OF v0 IH(3) this]
  have s: "(right_tick ^^ Suc n) (500, 0) = (p + (v + 0.24), (v + 0.24) * 0.985)"
    using v1 by (simp add: IH(1) min_def)
  have "p + (v + 0.24) = 500 + 16 * real (Suc n) - 3152 / 3 * (1 - 0.985 * X)"
    by (simp add: p_def v_def field_simps)
  then have "p + (v + 0.24) = 500 + 16 * real (Suc n) - 3152 / 3 * (1 - 0.985 ^ Suc n)"
    by (simp only: X_def power_Suc)
  moreover have "(v + 0.24) * 0.985 = 394 / 25 * (1 - 0.985 * X)"
    by (simp add: v_def field_simps)
  then have "(v + 0.24) * 0.985 = 394 / 25 * (1 - 0.985 ^ Suc n)"
    by (simp only: X_def power_Suc)
  moreover have "p + (v + 0.24) \<le> 500 + 7.4 * real (Suc n)"
    using IH(2) v1 by (simp add: field_simps)
  moreover have "500 \<le> p + (v + 0.24)" using IH(3) v0 by simp
  ultimately show ?case by (simp only: s fst_conv)
qed

lemma glide_41:
  "\<exists>p v. (right_tick ^^ 41) (500, 0) = (p, v) \<and> 670 < p \<and> p < 671 \<and> 7.2 < v \<and> v < 7.289"
proof -
  have b: "(0.985::real) ^ 41 < 0.5382" "0.538 < (0.985::real) ^ 41"
    by (simp_all add: power_divide)
  from glide_accelerating [of 41] have
    "(right_tick ^^ 41) (500, 0) =
       (500 + 16 * 41 - 3152 / 3 * (1 - 0.985 ^ 41), 394 / 25 * (1 - 0.985 ^ 41))"
    by simp
  moreover have "670 < 500 + 16 * 41 - 3152 / 3 * (1 - (0.985::real) ^ 41)"
    "500 + 16 * 41 - 3152 / 3 * (1 - (0.985::real) ^ 41) < 671"
    "7.2 < 394 / 25 * (1 - (0.985::real) ^ 41)" "394 / 25 * (1 - (0.985::real) ^ 41) < 7.289"
    using b by simp_all
  ultimately show ?thesis by blast
qed

text \<open>From tick 42 on the clamp holds the velocity at 7.4 before friction.\<close>

lemma glide_cruising:
  "k \<le> 32 \<Longrightarrow>
   (right_tick ^^ (42 + k)) (500, 0) =
     (fst ((right_tick ^^ 41) (500, 0)) + 7.4 * real (Suc k), 7.289)"
proof (induction k)
  case 0
  from glide_41 obtain p v where
    s: "(right_tick ^^ 41) (500, 0) = (p, v)" and b: "670 < p" "p < 671" "7.2 < v" "v < 7.289"
    by blast
  have "42 = Suc 41" by simp
  then have "(right_tick ^^ (42 + 0)) (500, 0) = right_tick (p, v)"
    by (simp only: add_0_right funpow.simps o_apply s)
  also have "right_tick (p, v) = (p + min (v + 0.24) 7.4, min (v + 0.24) 7.4 * 0.985)"
    using b by (intro right_tick_free) simp_all
  also have "min (v + 0.24) 7.4 = 7.4" using b by simp
  finally show ?case by (simp add: s)
next
  case (Suc k)
  from glide_41 obtain p v where
    s: "(right_tick ^^ 41) (500, 0) = (p, v)" and b: "670 < p" "p < 671"
    by blast
  from Suc have IH: "(right_tick ^^ (42 + k)) (500, 0) = (p + 7.4 * real (Suc k), 7.289)"
    by (simp add: s)
  from Suc.prems have k: "real k \<le> 31" by simp
  have "(right_tick ^^ (42 + Suc k)) (500, 0) = right_tick (p + 7.4 * real (Suc k), 7.289)"
    by (simp only: add_Suc_right funpow.simps o_apply IH)
  also have "\<dots> = (p + 7.4 * real (Suc k) + min (7.289 + 0.24) 7.4, min (7.289 + 0.24) 7.4 * 0.985)"
    using b k by (intro right_tick_free) (simp_all add: field_simps)
  finally show ?case by (simp add: s field_simps)
qed

lemma glide_bounce:
  "snd ((right_tick ^^ 74) (500, 0)) = 7.289"
  "(right_tick ^^ 75) (500, 0) = (920, - 5.1023)"
  "(right_tick ^^ 76) (500, 0) = (915.1377, - 4.7893655)"
  "fst ((right_tick ^^ 77) (500, 0)) = 910.5883345"
proof -
  from glide_41 obtain p v where
    s: "(right_tick ^^ 41) (500, 0) = (p, v)" and b: "670 < p" "p < 671"
    by blast
  from glide_cruising [of 32] have 74: "(right_tick ^^ 74) (500, 0) = (p + 244.2, 7.289)"
    by (simp add: s)
  then show "snd ((right_tick ^^ 74) (500, 0)) = 7.289" by simp
  have "75 = Suc 74" by simp
  then have "(right_tick ^^ 75) (500, 0) = right_tick (p + 244.2, 7.289)"
    by (simp only: funpow.simps o_apply 74)
  also have "\<dots> = (920, min (7.289 + 0.24) 7.4 * 0.985 * (- 0.7))"
    using b by (intro right_tick_wall) simp_all
  finally show 75: "(right_tick ^^ 75) (500, 0) = (920, - 5.1023)" by simp
  have "76 = Suc 75" by simp
  then have "(right_tick ^^ 76) (500, 0) = right_tick (920, - 5.1023)"
    by (simp only: funpow.simps o_apply 75)
  then show 76: "(right_tick ^^ 76) (500, 0) = (915.1377, - 4.7893655)"
    by (simp add: right_tick_def Let_def clamp_def game_consts)
  have "77 = Suc 76" by simp
  then have "(right_tick ^^ 77) (500, 0) = right_tick (915.1377, - 4.7893655)"
    by (simp only: funpow.simps o_apply 76)
  then show "fst ((right_tick ^^ 77) (500, 0)) = 910.5883345"
    by (simp add: right_tick_def Let_def clamp_def game_consts)
qed

text \<open>
  Claim C7, as it is stated, fails: on the 75th tick the agent reaches x = 920 and its
  velocity is reflected, so that \<open>velocity.x\<close> falls from 7.289 to -5.1023; after that
  \<open>position.x\<close> is below 920 and decreases, from 915.1377 after 76 ticks to 910.5883345
  after 77.
\<close>

theorem steady_right_counterexample:
  "\<not> isl (run demo_rand (\<lambda>k. demo_clock) 16 77 scenario_world) \<and>
   x_of (Horseman.velocity (agent_after demo_rand (\<lambda>k. demo_clock) 16 74 scenario_world 0)) = 7.289 \<and>
   x_of (Horseman.velocity (agent_after demo_rand (\<lambda>k. demo_clock) 16 75 scenario_world 0)) = - 5.1023 \<and>
   x_of (Horseman.position (agent_after demo_rand (\<lambda>k. demo_clock) 16 76 scenario_world 0)) = 915.1377 \<and>
   x_of (Horseman.position (agent_after demo_rand (\<lambda>k. demo_clock) 16 77 scenario_world 0)) = 910.5883345"
proof -
  have a: "activeHorseman scenario_world = Some (real 0)"
    "0 < length (horsemenRef scenario_world)"
    by (simp_all add: demo_defs)
  have k: "\<forall>k. held (pressedKeys scenario_world) k \<longleftrightarrow> k = ''arrowright''"
    by (simp add: demo_defs held_def)
  have start: "x_of (Horseman.position (horsemenRef scenario_world ! 0)) = 500"
    "x_of (Horseman.velocity (horsemenRef scenario_world ! 0)) = 0"
    by (simp_all add: demo_defs)
  note after = agent_after_right [OF a k, of demo_rand "\<lambda>k. demo_clock", unfolded start]
  show ?thesis
    by (simp add: after glide_bounce)
qed

text \<open>
  Claim C7, amended. For a controlled agent that starts at (500, 280) with zero velocity,
  with only the right arrow held through successive ticks of 16 ms: every tick returns and
  leaves \<open>velocity.x\<close> at most 7.4; \<open>position.x\<close> strictly increases on every tick up to
  and including the first one that brings the agent to x = 920; and \<open>velocity.x\<close> does
  not decrease on the ticks before that one. (On that tick the velocity is reflected, and
  afterwards the position decreases.)
\<close>

theorem steady_right_until_wall:
  assumes "activeHorseman g = Some (real a)" and "a < length (horsemenRef g)"
    and "Horseman.position (horsemenRef g ! a) = \<lparr>x_of = 500, y_of = 280\<rparr>"
    and "Horseman.velocity (horsemenRef g ! a) = \<lparr>x_of = 0, y_of = 0\<rparr>"
    and "\<forall>k. held (pressedKeys g) k \<longleftrightarrow> k = ''arrowright''"
  shows "\<not> isl (run rand clocks 16 (Suc n) g) \<and>
         x_of (Horseman.velocity (agent_after rand clocks 16 (Suc n) g a)) \<le> HORSEMAN_MAX_SPEED \<and>
         ((\<forall>k\<le>n. x_of (Horseman.position (agent_after rand clocks 16 k g a)) < CANVAS_WIDTH - 40) \<longrightarrow>
            x_of (Horseman.position (agent_after rand clocks 16 n g a)) <
            x_of (Horseman.position (agent_after rand clocks 16 (Suc n) g a))) \<and>
         ((\<forall>k\<le>Suc n. x_of (Horseman.position (agent_after rand clocks 16 k g a)) < CANVAS_WIDTH - 40) \<longrightarrow>
            x_of (Horseman.velocity (agent_after rand clocks 16 n g a)) \<le>
            x_of (Horseman.velocity (agent_after rand clocks 16 (Suc n) g a)))"
proof -
  have start: "x_of (Horseman.position (horsemenRef g ! a)) = 500"
    "x_of (Horseman.velocity (horsemenRef g ! a)) = 0"
    using assms(3,4) by simp_all
  note after = agent_after_right [OF assms(1,2,5), of rand clocks, unfolded start]
  have speed: "snd ((right_tick ^^ Suc n) (500, 0)) \<le> 7.4"
    using right_tick_speed [of "(right_tick ^^ n) (500, 0)"] by simp
  show ?thesis
    unfolding after game_consts
    using glide_position_increases [of n] glide_velocity_increases [of n] speed after(1) [of "Suc n"]
    by simp
qed

theorem steady_right_until_wall_witness:
  "\<not> isl (run demo_rand (\<lambda>k. demo_clock) 16 1
       (demo_game [demo_horseman 0 ''Aurora'' \<lparr>x_of = 500, y_of = 280\<rparr> \<lparr>x_of = 0, y_of = 0\<rparr>] []
          [''arrowright'' \<mapsto> True] 0)) \<and>
   Horseman.position (agent_after demo_rand (\<lambda>k. demo_clock) 16 1
       (demo_game [demo_horseman 0 ''Aurora'' \<lparr>x_of = 500, y_of = 280\<rparr> \<lparr>x_of = 0, y_of = 0\<rparr>] []
          [''arrowright'' \<mapsto> True] 0) 0) = \<lparr>x_of = 500.24, y_of = 280\<rparr> \<and>
   Horseman.velocity (agent_after demo_rand (\<lambda>k. demo_clock) 16 1
       (demo_game [demo_horseman 0 ''Aurora'' \<lparr>x_of = 500, y_of = 280\<rparr> \<lparr>x_of = 0, y_of = 0\<rparr>] []
          [''arrowright'' \<mapsto> True] 0) 0) = \<lparr>x_of = 0.2364, y_of = 0\<rparr>"
  using steady_right_until_wall [of
      "demo_game [demo_horseman 0 ''Aurora'' \<lparr>x_of = 500, y_of = 280\<rparr> \<lparr>x_of = 0, y_of = 0\<rparr>] []
         [''arrowright'' \<mapsto> True] 0" 0 demo_rand "\<lambda>k. demo_clock" 0]
  by (simp add: agent_after_def tick_eval demo_defs)

end
